theory Spec2Isabelle
  imports Complex_Main "HOL-Library.Sublist"
begin

section \<open>Rate limiter chain (ApiWithRateLimit.svelte.ts)\<close>

text \<open>
  Time is counted in milliseconds (Luxon \<^verbatim>\<open>DateTime\<close> and \<^verbatim>\<open>Duration\<close>
  compare by their millisecond value). A bucket is the four private fields of the class
  \<^verbatim>\<open>ApiWithRateLimit\<close>. One call of \<^verbatim>\<open>wait()\<close> is taken as atomic: it
  receives the clock reading \<open>now\<close> made on entry and returns the new bucket together
  with the duration handed to \<^verbatim>\<open>sleep\<close> (\<open>None\<close> when the call does not sleep).
\<close>

record ApiWithRateLimit =
  rateLimit :: int
  rateLimitInterval :: int
  lastBucketStart :: int
  requestCount :: int

definition newApiWithRateLimit :: "int \<Rightarrow> int \<Rightarrow> int \<Rightarrow> ApiWithRateLimit" where
  "newApiWithRateLimit limit intervalSeconds now =
     \<lparr>rateLimit = limit, rateLimitInterval = 1000 * intervalSeconds,
      lastBucketStart = now, requestCount = 0\<rparr>"

definition wait :: "ApiWithRateLimit \<Rightarrow> int \<Rightarrow> ApiWithRateLimit \<times> int option" where
  "wait b now =
     (let timeSinceLastBucketStart = now - lastBucketStart b in
      if timeSinceLastBucketStart > rateLimitInterval b
      then (b\<lparr>lastBucketStart := now, requestCount := 1\<rparr>, None)
      else if requestCount b \<ge> rateLimit b
      then (let nextBucketStart = lastBucketStart b + rateLimitInterval b;
                timeUntilNextBucketStart = nextBucketStart - now
            in (b\<lparr>lastBucketStart := now, requestCount := 1\<rparr>,
                Some timeUntilNextBucketStart))
      else (b\<lparr>requestCount := requestCount b + 1\<rparr>, None))"

text \<open>A sequence of calls on one bucket, each with the clock reading of its entry.\<close>

fun wait_all :: "ApiWithRateLimit \<Rightarrow> int list \<Rightarrow> ApiWithRateLimit \<times> int option list" where
  "wait_all b [] = (b, [])"
| "wait_all b (t # ts) =
     (case wait b t of (b', s) \<Rightarrow>
        (case wait_all b' ts of (b'', ss) \<Rightarrow> (b'', s # ss)))"

subsection \<open>Chained requests\<close>

text \<open>
  What a rejected promise carries: an \<^verbatim>\<open>AxiosError\<close> with the status of its response
  (\<open>None\<close> when no response was received), another \<^verbatim>\<open>Error\<close> with its message, or a
  thrown value that is no \<^verbatim>\<open>Error\<close> at all.
\<close>

datatype js_error = AxiosError "nat option" | PlainError string | NonError

definition is429 :: "js_error \<Rightarrow> bool" where
  "is429 e = (case e of AxiosError (Some st) \<Rightarrow> st = 429 | _ \<Rightarrow> False)"

datatype event = Waited nat "int option" | Called nat

record exec_state =
  limiters :: "ApiWithRateLimit list"
  clock :: int
  trace :: "event list"

text \<open>
  The \<^verbatim>\<open>for (const limiter of this.limiters) await limiter.wait()\<close> loop, from limiter
  number \<open>i\<close> on. A sleep of \<open>d\<close> milliseconds moves the clock by \<open>d\<close>.
\<close>

function wait_from :: "nat \<Rightarrow> exec_state \<Rightarrow> exec_state" where
  "wait_from i s =
     (if i < length (limiters s)
      then (case wait (limiters s ! i) (clock s) of (b', sl) \<Rightarrow>
              wait_from (Suc i)
                (s\<lparr>limiters := (limiters s)[i := b'],
                   clock := clock s + (case sl of None \<Rightarrow> 0 | Some d \<Rightarrow> d),
                   trace := trace s @ [Waited i sl]\<rparr>))
      else s)"
  by pat_completeness auto
termination
  by (relation "measure (\<lambda>(i, s). length (limiters s) - i)") (auto split: prod.splits)

declare wait_from.simps [simp del]

text \<open>
  The operation passed to \<^verbatim>\<open>execute\<close> is an effectful thunk: \<open>request n\<close> is what
  its \<open>n\<close>-th invocation settles with (\<open>Inl\<close> a rejection) and how long it took.
\<close>

definition call_request :: "(nat \<Rightarrow> (js_error + 'a) \<times> int) \<Rightarrow> nat \<Rightarrow> exec_state \<Rightarrow> exec_state" where
  "call_request request n s =
     s\<lparr>clock := clock s + snd (request n), trace := trace s @ [Called n]\<rparr>"

definition oneRound :: "(nat \<Rightarrow> (js_error + 'a) \<times> int) \<Rightarrow> nat \<Rightarrow> exec_state \<Rightarrow> exec_state" where
  "oneRound request n s = call_request request n (wait_from 0 s)"

partial_function (option) execute ::
  "(nat \<Rightarrow> (js_error + 'a) \<times> int) \<Rightarrow> nat \<Rightarrow> exec_state \<Rightarrow> ((js_error + 'a) \<times> exec_state) option"
where
  "execute request n s =
     (case fst (request n) of
        Inr v \<Rightarrow> Some (Inr v, oneRound request n s)
      | Inl e \<Rightarrow>
          if is429 e then execute request (Suc n) (oneRound request n s)
          else Some (Inl e, oneRound request n s))"

text \<open>The state after \<open>k\<close> consecutive rounds, the first of them with invocation number \<open>n\<close>.\<close>

fun rounds :: "(nat \<Rightarrow> (js_error + 'a) \<times> int) \<Rightarrow> nat \<Rightarrow> nat \<Rightarrow> exec_state \<Rightarrow> exec_state" where
  "rounds request 0 n s = s"
| "rounds request (Suc k) n s = rounds request k (Suc n) (oneRound request n s)"

text \<open>What the trace shows: which limiter was waited on (\<open>Inl\<close>) or which invocation of the
  operation was made (\<open>Inr\<close>), and the time spent asleep.\<close>

fun shape :: "event \<Rightarrow> nat + nat" where
  "shape (Waited i sl) = Inl i"
| "shape (Called n) = Inr n"

fun slept :: "event \<Rightarrow> int" where
  "slept (Waited i (Some d)) = d"
| "slept (Waited i None) = 0"
| "slept (Called n) = 0"


subsection \<open>A round of the chain in the words of the specification\<close>

text \<open>
  To wait on every limiter of the chain in the configured order is to call \<^verbatim>\<open>wait()\<close> on
  the first limiter at the present time, then on the second at the time at which the
  first call returned, and so on. \<open>waitOnEvery_spec\<close> returns, for every limiter in
  order, its bucket after the call and what the call slept, and the time at which the
  last call returned. A round of \<^verbatim>\<open>execute\<close> waits on every limiter and then invokes the
  operation once; the clock moves by the sleeps and by the time the operation takes.
\<close>

fun waitOnEvery_spec ::
  "ApiWithRateLimit list \<Rightarrow> int \<Rightarrow> (ApiWithRateLimit \<times> int option) list \<times> int" where
  "waitOnEvery_spec [] t = ([], t)"
| "waitOnEvery_spec (b # bs) t =
     (case waitOnEvery_spec bs (t + (case snd (wait b t) of None \<Rightarrow> 0 | Some d \<Rightarrow> d)) of
        (waited, t') \<Rightarrow> (wait b t # waited, t'))"

definition round_spec :: "(nat \<Rightarrow> (js_error + 'a) \<times> int) \<Rightarrow> exec_state \<Rightarrow> nat \<Rightarrow> exec_state" where
  "round_spec request s j =
     (case waitOnEvery_spec (limiters s) (clock s) of
        (waited, t') \<Rightarrow>
          \<lparr>limiters = map fst waited,
           clock = t' + snd (request j),
           trace = trace s @ map (\<lambda>(i, sl). Waited i sl) (List.enumerate 0 (map snd waited))
                   @ [Called j]\<rparr>)"

text \<open>
  Two operations to run \<^verbatim>\<open>execute\<close> on: one that is rejected with status 429 twice, each
  time after 5 ms, and then with status 500 after 7 ms; and one that is rejected with
  status 429 every time.
\<close>

definition twice429Then500 :: "nat \<Rightarrow> (js_error + unit) \<times> int" where
  "twice429Then500 j =
     (if j < 2 then (Inl (AxiosError (Some 429)), 5) else (Inl (AxiosError (Some 500)), 7))"

definition always429 :: "nat \<Rightarrow> (js_error + unit) \<times> int" where
  "always429 j = (Inl (AxiosError (Some 429)), 5)"
section \<open>Strings and values of JavaScript\<close>

text \<open>
  Strings are lists of characters. \<open>string option\<close> stands for \<^verbatim>\<open>string | null\<close>.
  \<open>orEmpty\<close> is \<^verbatim>\<open>x || ''\<close> and \<open>truthy\<close> is the test \<^verbatim>\<open>if (x)\<close> on such a value.
  A character is one of the first 256 code points; texts with characters beyond U+00FF
  are outside the model. \<^verbatim>\<open>String.prototype.trim\<close> is only ever asked whether its result
  is empty; the white space among these characters is U+0009 to U+000D, the space and
  the no-break space U+00A0.
\<close>

definition orEmpty :: "string option \<Rightarrow> string" where
  "orEmpty x = (case x of None \<Rightarrow> [] | Some s \<Rightarrow> s)"

definition truthy :: "string option \<Rightarrow> bool" where
  "truthy x = (case x of None \<Rightarrow> False | Some s \<Rightarrow> s \<noteq> [])"

definition isWhiteSpace :: "char \<Rightarrow> bool" where
  "isWhiteSpace c = (c \<in> set [CHR 0x09, CHR 0x0A, CHR 0x0B, CHR 0x0C, CHR 0x0D, CHR 0x20, CHR 0xA0])"

definition trimIsEmpty :: "string \<Rightarrow> bool" where
  "trimIsEmpty s = list_all isWhiteSpace s"

text \<open>\<^verbatim>\<open>s.split(d)\<close> for a one-character separator: always at least one segment.\<close>

fun split_on :: "char \<Rightarrow> string \<Rightarrow> string list" where
  "split_on d [] = [[]]"
| "split_on d (c # cs) =
     (if c = d then [] # split_on d cs
      else (case split_on d cs of [] \<Rightarrow> [[c]] | seg # segs \<Rightarrow> (c # seg) # segs))"

text \<open>\<^verbatim>\<open>xs.join(', ')\<close>.\<close>

fun join_comma :: "string list \<Rightarrow> string" where
  "join_comma [] = []"
| "join_comma [x] = x"
| "join_comma (x # y # ys) = x @ '', '' @ join_comma (y # ys)"


text \<open>Decimal digits of a length, as a template literal prints it.\<close>

fun show_nat :: "nat \<Rightarrow> string" where
  "show_nat n =
     (if n < 10 then [char_of (48 + n)]
      else show_nat (n div 10) @ [char_of (48 + n mod 10)])"

declare show_nat.simps [simp del]

section \<open>Dump resolver (ChapterTitleExportResolver.svelte.ts)\<close>

record Group =
  primaryName :: string
  altNames :: "string list"

record ChapterInfo =
  ci_volume :: string
  ci_chapter :: string
  ci_title :: string
  ci_groups :: "Group list"
  ci_language :: string

text \<open>
  \<open>groupTitles\<close> is a JavaScript object used as a dictionary from primary names to
  titles. It is kept as an association list in the order in which the keys were first
  assigned, which is the order of \<^verbatim>\<open>Object.keys\<close> for keys that are not array indices;
  \<open>objSet\<close> is the assignment \<^verbatim>\<open>obj[k] = v\<close>. \<^verbatim>\<open>Object.keys\<close> lists a key that is an array
  index (a decimal numeral such as \<^verbatim>\<open>12\<close>) before the others, and an assignment to the key
  \<^verbatim>\<open>__proto__\<close> stores no entry: primary names of these two kinds are outside the model.
\<close>

record ResolvedChapterInfo =
  groups :: "Group list"
  groupTitles :: "(string \<times> string option) list"
  ungroupedTitles :: "string option list"

definition objSet :: "(string \<times> 'v) list \<Rightarrow> string \<Rightarrow> 'v \<Rightarrow> (string \<times> 'v) list" where
  "objSet obj k v =
     (if k \<in> set (map fst obj) then map (\<lambda>(k', v'). if k' = k then (k', v) else (k', v')) obj
      else obj @ [(k, v)])"

definition objKeys :: "(string \<times> 'v) list \<Rightarrow> string list" where
  "objKeys obj = map fst obj"

text \<open>
  The index of one series: keys \<^verbatim>\<open>`${volume}|${chapter}`\<close> in the order of their first
  row, each with its releases in row order. \<open>addChapterInfo\<close> is the end of the loop body
  of \<^verbatim>\<open>parseCSV\<close>, \<open>seriesMapOf\<close> the whole loop on the rows of one series.
\<close>

type_synonym SeriesMap = "(string \<times> ChapterInfo list) list"

type_synonym DumpData = "(string \<times> SeriesMap) list"

definition keyOf :: "string \<Rightarrow> string \<Rightarrow> string" where
  "keyOf v c = v @ ''|'' @ c"

definition addChapterInfo :: "SeriesMap \<Rightarrow> ChapterInfo \<Rightarrow> SeriesMap" where
  "addChapterInfo seriesMap ci =
     (let key = keyOf (ci_volume ci) (ci_chapter ci) in
      if key \<in> set (map fst seriesMap)
      then map (\<lambda>(k, infos). if k = key then (k, infos @ [ci]) else (k, infos)) seriesMap
      else seriesMap @ [(key, [ci])])"

definition seriesMapOf :: "ChapterInfo list \<Rightarrow> SeriesMap" where
  "seriesMapOf rows = foldl addChapterInfo [] rows"

text \<open>The block \<^verbatim>\<open>// Build group to title mapping\<close>, which every query repeats.\<close>

definition titleOrNull :: "string \<Rightarrow> string option" where
  "titleOrNull t = (if t \<noteq> [] \<and> \<not> trimIsEmpty t then Some t else None)"

definition buildResolved :: "ChapterInfo \<Rightarrow> ResolvedChapterInfo" where
  "buildResolved ci =
     (if length (ci_groups ci) > 0
      then \<lparr>groups = ci_groups ci,
            groupTitles = foldl (\<lambda>obj g. objSet obj (primaryName g) (titleOrNull (ci_title ci)))
                                [] (ci_groups ci),
            ungroupedTitles = []\<rparr>
      else \<lparr>groups = ci_groups ci, groupTitles = [],
            ungroupedTitles = [titleOrNull (ci_title ci)]\<rparr>)"

definition groupMatches :: "Group \<Rightarrow> string \<Rightarrow> bool" where
  "groupMatches g searchString =
     (if primaryName g = searchString then True
      else list_ex (\<lambda>altName. altName = searchString) (altNames g))"

definition findGroupPrimaryName :: "ResolvedChapterInfo \<Rightarrow> string \<Rightarrow> string option" where
  "findGroupPrimaryName resolvedInfo groupName =
     map_option primaryName (find (\<lambda>g. groupMatches g groupName) (groups resolvedInfo))"

definition hasMatchingGroupName :: "string list \<Rightarrow> ChapterInfo \<Rightarrow> bool" where
  "hasMatchingGroupName groupNames ci =
     list_ex (\<lambda>groupName. list_ex (\<lambda>g. groupMatches g groupName) (ci_groups ci)) groupNames"

definition getChapterInfo ::
  "DumpData \<Rightarrow> string \<Rightarrow> string option \<Rightarrow> string option \<Rightarrow> string \<Rightarrow> ResolvedChapterInfo option" where
  "getChapterInfo dat seriesId vol chap lang =
     (case map_of dat seriesId of
        None \<Rightarrow> None
      | Some seriesMap \<Rightarrow>
          (let key = keyOf (orEmpty vol) (orEmpty chap) in
           case map_of seriesMap key of
             None \<Rightarrow> None
           | Some chapterInfos \<Rightarrow>
               (case filter (\<lambda>ci. ci_language ci = lang) chapterInfos of
                  [] \<Rightarrow> None
                | chapterInfo # _ \<Rightarrow> Some (buildResolved chapterInfo))))"

definition getChapterInfoByGroups ::
  "DumpData \<Rightarrow> string \<Rightarrow> string option \<Rightarrow> string option \<Rightarrow> string list \<Rightarrow> string
     \<Rightarrow> ResolvedChapterInfo option" where
  "getChapterInfoByGroups dat seriesId vol chap groupNames lang =
     (case map_of dat seriesId of
        None \<Rightarrow> None
      | Some seriesMap \<Rightarrow>
          (let key = keyOf (orEmpty vol) (orEmpty chap) in
           case map_of seriesMap key of
             None \<Rightarrow> None
           | Some chapterInfos \<Rightarrow>
               (let languageFilteredInfos = filter (\<lambda>ci. ci_language ci = lang) chapterInfos in
                if languageFilteredInfos = [] then None
                else
                  (case find (\<lambda>ci. if length groupNames = 0 then length (ci_groups ci) = 0
                                     else hasMatchingGroupName groupNames ci)
                             languageFilteredInfos of
                     None \<Rightarrow> None
                   | Some matchingChapterInfo \<Rightarrow> Some (buildResolved matchingChapterInfo)))))"

text \<open>
  The fallback walks the keys in insertion order; \<^verbatim>\<open>const [volume, chapterNum] = key.split('|')\<close>
  takes the first two segments of the key (the second is \<^verbatim>\<open>undefined\<close> when there is none).
\<close>

fun byChapterAndGroups ::
  "string \<Rightarrow> string list \<Rightarrow> string \<Rightarrow> SeriesMap \<Rightarrow> (string \<times> ResolvedChapterInfo) option" where
  "byChapterAndGroups chapterStr groupNames lang [] = None"
| "byChapterAndGroups chapterStr groupNames lang ((key, chapterInfos) # rest) =
     (let segs = split_on CHR ''|'' key;
          vol = (case segs of [] \<Rightarrow> [] | v # _ \<Rightarrow> v);
          chapterNum = (case segs of _ # c # _ \<Rightarrow> Some c | _ \<Rightarrow> None)
      in if chapterNum \<noteq> Some chapterStr
         then byChapterAndGroups chapterStr groupNames lang rest
         else (case find (\<lambda>ci. if length groupNames = 0 then \<not> length (ci_groups ci) > 0
                                else hasMatchingGroupName groupNames ci)
                         (filter (\<lambda>ci. ci_language ci = lang) chapterInfos) of
                 None \<Rightarrow> byChapterAndGroups chapterStr groupNames lang rest
               | Some chapterInfo \<Rightarrow> Some (vol, buildResolved chapterInfo)))"

definition getChapterInfoByChapterAndGroups ::
  "DumpData \<Rightarrow> string \<Rightarrow> string option \<Rightarrow> string list \<Rightarrow> string
     \<Rightarrow> (string \<times> ResolvedChapterInfo) option" where
  "getChapterInfoByChapterAndGroups dat seriesId chap groupNames lang =
     (case map_of dat seriesId of
        None \<Rightarrow> None
      | Some seriesMap \<Rightarrow> byChapterAndGroups (orEmpty chap) groupNames lang seriesMap)"

text \<open>\<^verbatim>\<open>getAllGroups\<close>: the groups of the series, the first one of each primary name.\<close>

fun firstByPrimaryName :: "Group list \<Rightarrow> Group list \<Rightarrow> Group list" where
  "firstByPrimaryName acc [] = acc"
| "firstByPrimaryName acc (g # gs) =
     (if primaryName g \<in> set (map primaryName acc) then firstByPrimaryName acc gs
      else firstByPrimaryName (acc @ [g]) gs)"

definition getAllGroups :: "DumpData \<Rightarrow> string \<Rightarrow> Group list" where
  "getAllGroups dat seriesId =
     (case map_of dat seriesId of
        None \<Rightarrow> []
      | Some seriesMap \<Rightarrow>
          firstByPrimaryName [] (concat (map ci_groups (concat (map snd seriesMap)))))"

section \<open>Group matcher (GroupMatcher.svelte.ts)\<close>

record ScanGroup =
  groupId :: string
  groupName :: string

definition mapCsvGroupsToApiGroups :: "Group list \<Rightarrow> ScanGroup list \<Rightarrow> (string \<rightharpoonup> string)" where
  "mapCsvGroupsToApiGroups csvGroups apiGroups =
     foldl (\<lambda>mapping csvGroup.
              case find (\<lambda>apiGroup. groupMatches csvGroup (groupName apiGroup)) apiGroups of
                None \<Rightarrow> mapping
              | Some matchedApiGroup \<Rightarrow> mapping(primaryName csvGroup \<mapsto> groupId matchedApiGroup))
           Map.empty csvGroups"

text \<open>
  \<^verbatim>\<open>searchString.match(/\[([^\]]+)\]$/)\<close>: the string has to end with \<^verbatim>\<open>]\<close>; the match
  is the leftmost one, so the captured content starts after the first \<^verbatim>\<open>[\<close> that
  follows the last earlier \<^verbatim>\<open>]\<close>, and it must not be empty.
\<close>

definition lastBracketMatch :: "string \<Rightarrow> string option" where
  "lastBracketMatch searchString =
     (if searchString = [] \<or> last searchString \<noteq> CHR '']'' then None
      else
        (let body = butlast searchString;
             tail = rev (takeWhile (\<lambda>c. c \<noteq> CHR '']'') (rev body))
         in case dropWhile (\<lambda>c. c \<noteq> CHR ''['') tail of
              [] \<Rightarrow> None
            | _ # content \<Rightarrow> if content = [] then None else Some content))"

text \<open>\<^verbatim>\<open>name.replace(/[\\/\\:\\*]/g, '-')\<close>: the class holds the backslash, \<^verbatim>\<open>/\<close>, \<^verbatim>\<open>:\<close>
  and \<^verbatim>\<open>*\<close>.\<close>

definition normalizeName :: "string \<Rightarrow> string" where
  "normalizeName name =
     map (\<lambda>c. if c \<in> set [CHR 0x5C, CHR ''/'', CHR '':'', CHR ''*''] then CHR ''-'' else c) name"

definition groupNameInString :: "Group \<Rightarrow> string \<Rightarrow> bool" where
  "groupNameInString g searchString =
     (case lastBracketMatch searchString of
        None \<Rightarrow> False
      | Some lastBracketContent \<Rightarrow>
          if lastBracketContent = normalizeName (primaryName g) then True
          else list_ex (\<lambda>altName. lastBracketContent = normalizeName altName) (altNames g))"

text \<open>\<^verbatim>\<open>matchGroupsToChapter\<close> reads only \<^verbatim>\<open>chapter.originalFolderPath\<close>.\<close>

definition matchGroupsToChapter :: "string option \<Rightarrow> Group list \<Rightarrow> Group list" where
  "matchGroupsToChapter originalFolderPath gs =
     (if \<not> truthy originalFolderPath then []
      else filter (\<lambda>g. groupNameInString g (orEmpty originalFolderPath)) gs)"

text \<open>
  The matching rule in the words of the specification (and of the comment above
  \<^verbatim>\<open>groupNameInString\<close>): the normalised name occurs as a substring of the content of the
  trailing bracketed segment.
\<close>

definition groupNameInString_spec :: "Group \<Rightarrow> string \<Rightarrow> bool" where
  "groupNameInString_spec g searchString =
     (case lastBracketMatch searchString of
        None \<Rightarrow> False
      | Some lastBracketContent \<Rightarrow>
          list_ex (\<lambda>name. sublist (normalizeName name) lastBracketContent)
                  (primaryName g # altNames g))"

definition matchGroupsToChapter_spec :: "string option \<Rightarrow> Group list \<Rightarrow> Group list" where
  "matchGroupsToChapter_spec originalFolderPath gs =
     (if \<not> truthy originalFolderPath then []
      else filter (\<lambda>g. groupNameInString_spec g (orEmpty originalFolderPath)) gs)"

section \<open>Change engine (ChapterDumpApplier.svelte.ts)\<close>

record ChapterInput =
  chapterVolume :: "string option"
  chapterNumber :: "string option"
  originalFolderPath :: "string option"
  groupIds :: "string list"
  currentTitle :: "string option"
  language :: string

record ReleaseMatchResult =
  m_release :: ResolvedChapterInfo
  m_volume :: "string option"
  m_usedFallback :: bool

record TitleResolutionResult =
  res_title :: "string option"
  res_matchedGroupName :: "string option"
  res_usedFallback :: bool
  res_fallbackVolume :: "string option"
  res_chapterInfo :: ResolvedChapterInfo

record TitleFromReleaseResult =
  t_title :: "string option"
  t_matchedGroupName :: "string option"

record ChapterRelease =
  release :: ResolvedChapterInfo
  rel_volume :: "string option"
  rel_usedFallback :: bool
  rel_title :: "string option"
  rel_matchedGroupName :: "string option"

datatype WarningReason =
    NO_GROUPS | NO_VALID_GROUPS | NO_CHAPTER_INFO | NO_MATCHING_GROUP | VOLUME_MISMATCH
  | PARTIAL_GROUP_MATCH | TITLE_RESOLUTION_NOT_FOUND | DUPLICATE_CHAPTER

datatype ChangeStatus = SUCCESS | NO_CHANGES | FAILED

record Warning =
  reason :: WarningReason
  noteText :: string

record ApplyChangesOptions =
  useFallbackMatching :: bool
  isNoGroupChapter :: "ChapterInput \<Rightarrow> bool"

text \<open>
  In \<open>ChapterChanges\<close> an omitted field is \<open>None\<close>, a field set to \<^verbatim>\<open>null\<close> is
  \<open>Some None\<close>.
\<close>

record ChapterChanges =
  volume :: "string option option"
  title :: "string option option"
  additionalGroupIds :: "string list"

record ChapterChangeResult =
  status :: ChangeStatus
  changes :: "ChapterChanges option"
  warnings :: "Warning list"
  resolutionResult :: "TitleResolutionResult option"

record ApplyChangesResult =
  results :: "ChapterChangeResult list"
  successCount :: nat
  failedCount :: nat

text \<open>The recurring \<^verbatim>\<open>x === undefined || x === null || x === '' ? null : x\<close>.\<close>

definition emptyToNull :: "string option \<Rightarrow> string option" where
  "emptyToNull x = (if x = None \<or> x = Some [] then None else x)"

definition createGroupIdToNameMap :: "ScanGroup list \<Rightarrow> (string \<rightharpoonup> string)" where
  "createGroupIdToNameMap availableScanGroups =
     foldl (\<lambda>groupIdToName g. groupIdToName(groupId g \<mapsto> groupName g)) Map.empty availableScanGroups"

subsection \<open>Release lookup\<close>

definition findReleasesForChapter ::
  "DumpData \<Rightarrow> string \<Rightarrow> string option \<Rightarrow> string option \<Rightarrow> string \<Rightarrow> string list
     \<Rightarrow> ResolvedChapterInfo option" where
  "findReleasesForChapter dat seriesId vol chap lang groupNames =
     (if length groupNames > 0
      then getChapterInfoByGroups dat seriesId vol chap groupNames lang
      else getChapterInfo dat seriesId vol chap lang)"

definition matchChapterToRelease ::
  "DumpData \<Rightarrow> ChapterInput \<Rightarrow> string \<Rightarrow> string list \<Rightarrow> bool \<Rightarrow> ReleaseMatchResult option" where
  "matchChapterToRelease dat chap seriesId groupNames useFallback =
     (case findReleasesForChapter dat seriesId (chapterVolume chap) (chapterNumber chap)
             (language chap) groupNames of
        Some rel \<Rightarrow>
          Some \<lparr>m_release = rel, m_volume = chapterVolume chap, m_usedFallback = False\<rparr>
      | None \<Rightarrow>
          if useFallback \<and> truthy (chapterNumber chap)
          then (case getChapterInfoByChapterAndGroups dat seriesId (chapterNumber chap) groupNames
                       (language chap) of
                  Some (fallbackVolume, info) \<Rightarrow>
                    Some \<lparr>m_release = info, m_volume = Some fallbackVolume, m_usedFallback = True\<rparr>
                | None \<Rightarrow> None)
          else None)"

definition lookupChapterRelease ::
  "DumpData \<Rightarrow> ChapterInput \<Rightarrow> string \<Rightarrow> string list \<Rightarrow> bool \<Rightarrow> ChapterRelease option" where
  "lookupChapterRelease dat chap seriesId groupNames useFallback =
     (case matchChapterToRelease dat chap seriesId groupNames useFallback of
        None \<Rightarrow> None
      | Some matchResult \<Rightarrow>
          Some \<lparr>release = m_release matchResult,
                rel_volume = (if m_usedFallback matchResult then m_volume matchResult
                              else chapterVolume chap),
                rel_usedFallback = m_usedFallback matchResult,
                rel_title = None, rel_matchedGroupName = None\<rparr>)"

definition getAllGroupIdsForRelease ::
  "DumpData \<Rightarrow> string \<Rightarrow> ResolvedChapterInfo \<Rightarrow> ScanGroup list \<Rightarrow> string list" where
  "getAllGroupIdsForRelease dat seriesId rel availableScanGroups =
     (let allGroupsInRelease = objKeys (groupTitles rel);
          csvGroups = getAllGroups dat seriesId;
          csvToApiGroupMap = mapCsvGroupsToApiGroups csvGroups availableScanGroups
      in concat (map (\<lambda>name. case csvToApiGroupMap name of
                                 None \<Rightarrow> []
                               | Some gid \<Rightarrow> if gid \<noteq> [] then [gid] else [])
                     allGroupsInRelease))"

subsection \<open>Title resolution\<close>

text \<open>The loop over the group names of \<^verbatim>\<open>resolveTitleFromRelease\<close>, up to its \<^verbatim>\<open>break\<close>.\<close>

fun firstMatchedGroup :: "ResolvedChapterInfo \<Rightarrow> string list \<Rightarrow> string option" where
  "firstMatchedGroup rel [] = None"
| "firstMatchedGroup rel (name # rest) =
     (case findGroupPrimaryName rel name of
        None \<Rightarrow> firstMatchedGroup rel rest
      | Some primary \<Rightarrow>
          if primary \<noteq> [] \<and> primary \<in> set (objKeys (groupTitles rel)) then Some primary
          else firstMatchedGroup rel rest)"

definition resolveTitleFromRelease ::
  "ResolvedChapterInfo \<Rightarrow> string list \<Rightarrow> bool \<Rightarrow> TitleFromReleaseResult option" where
  "resolveTitleFromRelease rel groupNames isNoGroup =
     (let matched = firstMatchedGroup rel groupNames;
          groupTitle = (case matched of
                          None \<Rightarrow> None
                        | Some primary \<Rightarrow>
                            (case map_of (groupTitles rel) primary of
                               None \<Rightarrow> None
                             | Some rawTitle \<Rightarrow> emptyToNull rawTitle));
          resolved = (if \<not> truthy matched \<and> isNoGroup
                      then (case ungroupedTitles rel of
                              [] \<Rightarrow> groupTitle
                            | rawTitle # _ \<Rightarrow> emptyToNull rawTitle)
                      else groupTitle)
      in if resolved \<noteq> None \<or> matched \<noteq> None
         then Some \<lparr>t_title = resolved, t_matchedGroupName = matched\<rparr>
         else None)"

subsection \<open>Chapter fixes\<close>

definition determineVolumeChange :: "string option \<Rightarrow> string option \<Rightarrow> string option option" where
  "determineVolumeChange currentVolume releaseVolume =
     (let newVolume = (if releaseVolume = Some [] then None else releaseVolume)
      in if currentVolume \<noteq> newVolume then Some newVolume else None)"

definition determineTitleChange :: "string option \<Rightarrow> string option \<Rightarrow> string option option" where
  "determineTitleChange current resolvedTitle =
     (let normalizedCurrent = (if current = Some [] then None else current);
          normalizedResolved = (if resolvedTitle = Some [] then None else resolvedTitle)
      in if normalizedCurrent \<noteq> normalizedResolved then Some normalizedResolved else None)"

definition getAdditionalGroupsFromRelease ::
  "string list \<Rightarrow> DumpData \<Rightarrow> string \<Rightarrow> ResolvedChapterInfo \<Rightarrow> ScanGroup list \<Rightarrow> string option
     \<Rightarrow> string list" where
  "getAdditionalGroupsFromRelease currentGroupIds dat seriesId rel availableScanGroups matched =
     (if \<not> truthy matched then []
      else if length (objKeys (groupTitles rel)) > 1
      then filter (\<lambda>gid. gid \<notin> set currentGroupIds)
                  (getAllGroupIdsForRelease dat seriesId rel availableScanGroups)
      else [])"

text \<open>
  \<^verbatim>\<open>calculateChangesFromRelease\<close> returns the changes and writes the resolved title and
  group into its argument \<^verbatim>\<open>chapterRelease\<close>; the model returns both.
\<close>

definition calculateChangesFromRelease ::
  "DumpData \<Rightarrow> ChapterInput \<Rightarrow> ChapterRelease \<Rightarrow> ScanGroup list \<Rightarrow> string \<Rightarrow> string list \<Rightarrow> bool
     \<Rightarrow> ChapterChanges \<times> ChapterRelease" where
  "calculateChangesFromRelease dat chap chapterRelease availableScanGroups seriesId groupNames isNoGroup =
     (let rel = release chapterRelease;
          volumeChange = determineVolumeChange (chapterVolume chap) (rel_volume chapterRelease);
          preliminaryTitleResult = resolveTitleFromRelease rel groupNames isNoGroup;
          additional =
            (case preliminaryTitleResult of
               None \<Rightarrow> []
             | Some pre \<Rightarrow>
                 if truthy (t_matchedGroupName pre)
                 then getAdditionalGroupsFromRelease (groupIds chap) dat seriesId rel
                        availableScanGroups (t_matchedGroupName pre)
                 else []);
          updatedGroupIds = groupIds chap @ additional;
          groupIdToNameMap = createGroupIdToNameMap availableScanGroups;
          updatedGroupNames = List.map_filter groupIdToNameMap updatedGroupIds;
          finalGroupNames = (if length updatedGroupNames > 0 then updatedGroupNames else groupNames);
          titleResult = resolveTitleFromRelease rel finalGroupNames isNoGroup;
          rawResolvedTitle = (case titleResult of None \<Rightarrow> None | Some r \<Rightarrow> t_title r);
          resolvedTitle = emptyToNull rawResolvedTitle;
          chapterRelease' =
            (case titleResult of
               Some r \<Rightarrow> chapterRelease\<lparr>rel_title := resolvedTitle,
                                         rel_matchedGroupName := t_matchedGroupName r\<rparr>
             | None \<Rightarrow> chapterRelease\<lparr>rel_title := None, rel_matchedGroupName := None\<rparr>);
          normalizedCurrentTitle = emptyToNull (currentTitle chap);
          titleChange = determineTitleChange normalizedCurrentTitle resolvedTitle
      in (\<lparr>volume = volumeChange, title = titleChange, additionalGroupIds = additional\<rparr>,
          chapterRelease'))"

subsection \<open>Coordination\<close>

definition failedResult :: "WarningReason \<Rightarrow> string \<Rightarrow> ChapterChangeResult" where
  "failedResult r n =
     \<lparr>status = FAILED, changes = None, warnings = [\<lparr>reason = r, noteText = n\<rparr>],
      resolutionResult = None\<rparr>"

text \<open>
  The body of the loop of \<^verbatim>\<open>applyChangesFromDump\<close>, in the pieces the source writes one
  after the other: the conversion of the \<^verbatim>\<open>ChapterRelease\<close> to a \<^verbatim>\<open>TitleResolutionResult\<close>,
  the two warnings, and the result pushed for the chapter.
\<close>

definition resolutionResultOf :: "ChapterRelease \<Rightarrow> TitleResolutionResult" where
  "resolutionResultOf chapterRelease =
     \<lparr>res_title = emptyToNull (rel_title chapterRelease),
      res_matchedGroupName = rel_matchedGroupName chapterRelease,
      res_usedFallback = rel_usedFallback chapterRelease,
      res_fallbackVolume = (if rel_usedFallback chapterRelease then rel_volume chapterRelease
                            else None),
      res_chapterInfo = release chapterRelease\<rparr>"

definition volumeMismatchWarnings :: "string option \<Rightarrow> TitleResolutionResult \<Rightarrow> Warning list" where
  "volumeMismatchWarnings originalVolume res =
     (if res_usedFallback res \<and> res_fallbackVolume res \<noteq> None
      then (let originalVolumeStr = (case originalVolume of None \<Rightarrow> ''N/A'' | Some v \<Rightarrow> v);
                newVolumeStr = (if res_fallbackVolume res = Some [] \<or> res_fallbackVolume res = None
                                then ''N/A'' else orEmpty (res_fallbackVolume res))
            in [\<lparr>reason = VOLUME_MISMATCH,
                  noteText = ''Changed volume from '' @ originalVolumeStr @ '' to '' @ newVolumeStr\<rparr>])
      else [])"

definition partialGroupMatchWarnings :: "TitleResolutionResult \<Rightarrow> Warning list" where
  "partialGroupMatchWarnings res =
     (if truthy (res_matchedGroupName res)
      then (let allGroupsInChapter = objKeys (groupTitles (res_chapterInfo res))
            in if length allGroupsInChapter > 1
               then [\<lparr>reason = PARTIAL_GROUP_MATCH,
                      noteText = ''Matched '' @ [CHR 0x22] @ orEmpty (res_matchedGroupName res)
                        @ [CHR 0x22] @ '' but release has '' @ show_nat (length allGroupsInChapter)
                        @ '' groups: '' @ join_comma allGroupsInChapter\<rparr>]
               else [])
      else [])"

definition applyChangesToChapter ::
  "DumpData \<Rightarrow> ScanGroup list \<Rightarrow> string \<Rightarrow> ApplyChangesOptions \<Rightarrow> ChapterInput \<Rightarrow> ChapterChangeResult" where
  "applyChangesToChapter dat availableScanGroups seriesId options chap =
     (let groupIdToName = createGroupIdToNameMap availableScanGroups;
          chapterIsNoGroup = isNoGroupChapter options chap;
          assignedGroupIds = groupIds chap
      in if length assignedGroupIds = 0 \<and> \<not> chapterIsNoGroup
         then failedResult NO_GROUPS ''Unable to assign any of the required groups to the chapter''
         else
           (let assignedGroupNames = List.map_filter groupIdToName assignedGroupIds
            in if length assignedGroupNames = 0 \<and> \<not> chapterIsNoGroup
               then failedResult NO_VALID_GROUPS ''No valid groups found for assigned group IDs''
               else
                 (case lookupChapterRelease dat chap seriesId assignedGroupNames
                         (useFallbackMatching options) of
                    None \<Rightarrow> failedResult NO_CHAPTER_INFO ''Chapter not found in chapter dump''
                  | Some chapterRelease0 \<Rightarrow>
                      (let originalVolume = chapterVolume chap;
                           (chs, chapterRelease) =
                              calculateChangesFromRelease dat chap chapterRelease0
                                availableScanGroups seriesId assignedGroupNames chapterIsNoGroup;
                           res = resolutionResultOf chapterRelease;
                           hasChanges = (volume chs \<noteq> None \<or> title chs \<noteq> None
                                         \<or> length (additionalGroupIds chs) > 0)
                       in \<lparr>status = (if hasChanges then SUCCESS else NO_CHANGES),
                           changes = Some chs,
                           warnings = volumeMismatchWarnings originalVolume res
                                      @ partialGroupMatchWarnings res,
                           resolutionResult = Some res\<rparr>))))"

definition applyChangesFromDump ::
  "DumpData \<Rightarrow> ChapterInput list \<Rightarrow> ScanGroup list \<Rightarrow> string \<Rightarrow> ApplyChangesOptions
     \<Rightarrow> ApplyChangesResult" where
  "applyChangesFromDump dat chapters availableScanGroups seriesId options =
     (let rs = map (applyChangesToChapter dat availableScanGroups seriesId options) chapters
      in \<lparr>results = rs,
          successCount = length (filter (\<lambda>r. status r \<noteq> FAILED) rs),
          failedCount = length (filter (\<lambda>r. status r = FAILED) rs)\<rparr>)"




definition neverNoGroup :: "ChapterInput \<Rightarrow> bool" where
  "neverNoGroup chap = False"

text \<open>
  An index is well keyed when every key has the form \<^verbatim>\<open>volume|chapter\<close> with no further
  \<^verbatim>\<open>|\<close>, as the keys of rows without \<^verbatim>\<open>|\<close> in their volume and chapter have.
\<close>

definition wellKeyed :: "SeriesMap \<Rightarrow> bool" where
  "wellKeyed seriesMap =
     (distinct (map fst seriesMap)
      \<and> list_all (\<lambda>(key, infos). length (split_on CHR ''|'' key) = 2) seriesMap)"

text \<open>The entries stored in the index of a series at a key.\<close>

definition entriesAt :: "DumpData \<Rightarrow> string \<Rightarrow> string \<Rightarrow> ChapterInfo list" where
  "entriesAt dat seriesId key =
     (case map_of dat seriesId of
        None \<Rightarrow> []
      | Some seriesMap \<Rightarrow> (case map_of seriesMap key of None \<Rightarrow> [] | Some infos \<Rightarrow> infos))"

text \<open>
  The exact-match query in the words of the specification: the entries at the key,
  filtered by language and then by group-name membership, or by having no groups when
  no group name is given; the first entry that qualifies.
\<close>

definition exactMatch_spec ::
  "DumpData \<Rightarrow> string \<Rightarrow> string option \<Rightarrow> string option \<Rightarrow> string \<Rightarrow> string list
     \<Rightarrow> ChapterInfo option" where
  "exactMatch_spec dat seriesId vol chap lang groupNames =
     find (\<lambda>ci. if groupNames = [] then ci_groups ci = [] else hasMatchingGroupName groupNames ci)
          (filter (\<lambda>ci. ci_language ci = lang)
                  (entriesAt dat seriesId (keyOf (orEmpty vol) (orEmpty chap))))"


text \<open>
  The fallback in the words of the specification. The fallback-by-chapter lookup is used
  for a chapter when the chapter passes the group checks (it has a group with a known
  name, or it is a no-group chapter), the exact lookup at its volume and number finds no
  release, fallback matching is switched on and the chapter has a number; the lookup by
  the number alone then gives the release and the volume it implies, if there is one.
\<close>

definition fallbackMatch_spec ::
  "DumpData \<Rightarrow> ScanGroup list \<Rightarrow> string \<Rightarrow> ApplyChangesOptions \<Rightarrow> ChapterInput
     \<Rightarrow> (string \<times> ResolvedChapterInfo) option" where
  "fallbackMatch_spec dat availableScanGroups seriesId options chap =
     (let names = List.map_filter (createGroupIdToNameMap availableScanGroups) (groupIds chap)
      in if (names \<noteq> [] \<or> isNoGroupChapter options chap)
            \<and> findReleasesForChapter dat seriesId (chapterVolume chap) (chapterNumber chap)
                 (language chap) names = None
            \<and> useFallbackMatching options \<and> truthy (chapterNumber chap)
         then getChapterInfoByChapterAndGroups dat seriesId (chapterNumber chap) names
                (language chap)
         else None)"
section \<open>Duplicate detection (GuidedChapterEditor.svelte, checkForDuplicates)\<close>




















subsection \<open>The duplicate rule in the words of the specification\<close>










section \<open>Upload orchestrator (ChapterUploader.svelte.ts)\<close>

text \<open>
  Modelled from the spec: the statuses of a chapter and of a page, and the fields of
  \<^verbatim>\<open>ChapterState\<close> and of its pages that the uploader reads and writes; the file that
  declares them (UploadingState.svelte.ts) is not among the sources. The specification
  gives each upload job and each page a status in NOT_STARTED, UPLOADING, COMPLETED,
  FAILED and an optional last error. Progress is a number between 0 and 1, here a real.
\<close>

datatype ChapterStatus = CH_NOT_STARTED | CH_UPLOADING | CH_COMPLETED | CH_FAILED

datatype ChapterPageStatus = PG_NOT_STARTED | PG_UPLOADING | PG_COMPLETED | PG_FAILED

record ChapterPageState =
  pageStatus :: ChapterPageStatus
  pageProgress :: real
  pageError :: "string option"
  associatedUploadSessionFileId :: "string option"

record ChapterState =
  chapterStatus :: ChapterStatus
  chapterProgress :: real
  chapterError :: "string option"
  associatedUploadSessionId :: "string option"
  pages :: "ChapterPageState list"
  chapterTitle :: "string option"

datatype UploaderStatus =
  UP_NOT_STARTED | UP_IN_PROGRESS | UP_COMPLETED | UP_FAILED | UP_PAUSED | UP_STOPPED

record ChapterUploader =
  up_chapters :: "ChapterState list"
  up_status :: UploaderStatus
  up_progress :: real
  up_error :: "string option"
  currentChapterIndex :: int
  authToken :: "string option"

definition checkProgress :: "ChapterUploader \<Rightarrow> ChapterUploader" where
  "checkProgress u =
     (let totalChapters = length (up_chapters u)
      in if totalChapters = 0 then u\<lparr>up_progress := 0\<rparr>
         else u\<lparr>up_progress := sum_list (map chapterProgress (up_chapters u)) / real totalChapters\<rparr>)"

subsection \<open>Classification of failures\<close>

text \<open>
  \<^verbatim>\<open>s.includes(needle)\<close> and \<^verbatim>\<open>s.toLowerCase()\<close>. A character of the model is one of the
  first 256 code points; among them \<^verbatim>\<open>toLowerCase\<close> moves the letters \<^verbatim>\<open>A\<close> to \<^verbatim>\<open>Z\<close> and
  the capital letters from U+00C0 to U+00DE (U+00D7, the multiplication sign, is not one)
  up by 32 and leaves the rest. Texts with characters beyond U+00FF are outside the model.
\<close>

definition includesStr :: "string \<Rightarrow> string \<Rightarrow> bool" where
  "includesStr s needle = sublist needle s"

definition toLowerCase :: "string \<Rightarrow> string" where
  "toLowerCase s =
     map (\<lambda>c. let n = (of_char c :: nat)
              in if (65 \<le> n \<and> n \<le> 90) \<or> (192 \<le> n \<and> n \<le> 222 \<and> n \<noteq> 215)
                 then char_of (n + 32) else c) s"

definition is403Error :: "js_error \<Rightarrow> bool" where
  "is403Error e =
     (case e of
        AxiosError st \<Rightarrow> st = Some 403
      | PlainError message \<Rightarrow> includesStr message ''403'' \<or> includesStr message ''Forbidden''
      | NonError \<Rightarrow> False)"

definition isNetworkError :: "js_error \<Rightarrow> bool" where
  "isNetworkError e = (case e of AxiosError st \<Rightarrow> st = None | _ \<Rightarrow> False)"

definition mentions403 :: "string option \<Rightarrow> bool" where
  "mentions403 err =
     (truthy err \<and> (includesStr (orEmpty err) ''403'' \<or> includesStr (orEmpty err) ''Forbidden''))"

definition has403Error :: "ChapterState \<Rightarrow> bool" where
  "has403Error chap =
     (if mentions403 (chapterError chap) then True
      else list_ex (\<lambda>page. mentions403 (pageError page)) (pages chap))"

definition mentionsNetwork :: "string option \<Rightarrow> bool" where
  "mentionsNetwork err =
     (truthy err \<and>
      (let errorLower = toLowerCase (orEmpty err)
       in includesStr errorLower ''network'' \<or> includesStr errorLower ''timeout''
          \<or> includesStr errorLower ''econnreset'' \<or> includesStr errorLower ''enotfound''
          \<or> includesStr errorLower ''econnrefused''))"

definition hasNetworkError :: "ChapterState \<Rightarrow> bool" where
  "hasNetworkError chap =
     (if mentionsNetwork (chapterError chap) then True
      else list_ex (\<lambda>page. mentionsNetwork (pageError page)) (pages chap))"

subsection \<open>Upload of one chapter with retries\<close>

text \<open>
  \<^verbatim>\<open>chapter.upload(token)\<close> is not among the sources and is a parameter: \<open>upload n chap\<close> is
  how the \<open>n\<close>-th upload call of the run settles when the chapter is in state \<open>chap\<close>. It
  either resolves, leaving the chapter in a new state, or rejects with an error, having
  left the chapter in some state. It works on the chapter it is called on and on no
  other. The record \<open>run_log\<close> counts the calls and keeps, for every call, the index of
  the chapter, the state it was called on and the outcome, and for every delay slept the
  index of the chapter and the delay.
\<close>

datatype upload_outcome = Resolved ChapterState | Rejected js_error ChapterState

fun stateAfter :: "upload_outcome \<Rightarrow> ChapterState" where
  "stateAfter (Resolved chap) = chap"
| "stateAfter (Rejected e chap) = chap"

record run_log =
  calls :: nat
  uploads :: "(nat \<times> ChapterState \<times> upload_outcome) list"
  sleeps :: "(nat \<times> nat) list"

definition MAX_RETRIES :: nat where
  "MAX_RETRIES = 3"

text \<open>\<^verbatim>\<open>RETRY_DELAYS[attempt - 1] || RETRY_DELAYS[RETRY_DELAYS.length - 1]\<close>.\<close>

definition retryDelay :: "nat \<Rightarrow> nat" where
  "retryDelay attempt =
     (if attempt = 1 then 2000 else if attempt = 2 then 5000
      else if attempt = 3 then 10000 else 10000)"

definition resetPage :: "ChapterPageState \<Rightarrow> ChapterPageState" where
  "resetPage page =
     page\<lparr>pageStatus := PG_NOT_STARTED, pageProgress := 0, pageError := None,
          associatedUploadSessionFileId := None\<rparr>"

definition resetForRetry :: "ChapterState \<Rightarrow> ChapterState" where
  "resetForRetry chap =
     chap\<lparr>chapterStatus := CH_NOT_STARTED, chapterProgress := 0, chapterError := None,
          associatedUploadSessionId := None, pages := map resetPage (pages chap)\<rparr>"

definition logCall :: "run_log \<Rightarrow> nat \<Rightarrow> ChapterState \<Rightarrow> upload_outcome \<Rightarrow> run_log" where
  "logCall lg j chap out = lg\<lparr>calls := calls lg + 1, uploads := uploads lg @ [(j, chap, out)]\<rparr>"

definition logSleep :: "run_log \<Rightarrow> nat \<Rightarrow> nat \<Rightarrow> run_log" where
  "logSleep lg j delay = lg\<lparr>sleeps := sleeps lg @ [(j, delay)]\<rparr>"

function uploadChapterWithRetry ::
  "(nat \<Rightarrow> ChapterState \<Rightarrow> upload_outcome) \<Rightarrow> nat \<Rightarrow> ChapterState \<Rightarrow> run_log \<Rightarrow> nat
     \<Rightarrow> (bool \<times> bool) \<times> ChapterState \<times> run_log" where
  "uploadChapterWithRetry upload j chap lg attempt =
     (case upload (calls lg) chap of
        Resolved chap1 \<Rightarrow>
          if chapterStatus chap1 = CH_COMPLETED
          then ((True, False), chap1, logCall lg j chap (Resolved chap1))
          else if has403Error chap1
          then ((False, True), chap1, logCall lg j chap (Resolved chap1))
          else if hasNetworkError chap1 \<and> attempt \<le> MAX_RETRIES
          then uploadChapterWithRetry upload j (resetForRetry chap1)
                 (logSleep (logCall lg j chap (Resolved chap1)) j (retryDelay attempt))
                 (attempt + 1)
          else ((False, False), chap1, logCall lg j chap (Resolved chap1))
      | Rejected e chap1 \<Rightarrow>
          if is403Error e
          then ((False, True), chap1, logCall lg j chap (Rejected e chap1))
          else if isNetworkError e \<and> attempt \<le> MAX_RETRIES
          then uploadChapterWithRetry upload j chap1
                 (logSleep (logCall lg j chap (Rejected e chap1)) j (retryDelay attempt))
                 (attempt + 1)
          else ((False, False), chap1, logCall lg j chap (Rejected e chap1)))"
  by pat_completeness auto
termination
  by (relation "measure (\<lambda>(upload, j, chap, lg, attempt). Suc MAX_RETRIES - attempt)") auto

declare uploadChapterWithRetry.simps [simp del]

subsection \<open>The run\<close>

definition stopRun :: "ChapterUploader \<Rightarrow> UploaderStatus \<Rightarrow> string \<Rightarrow> ChapterUploader" where
  "stopRun u st message = u\<lparr>up_status := st, up_error := Some message, up_progress := 0\<rparr>"

text \<open>
  The loop \<^verbatim>\<open>for (let i = 0; i < chaptersToUpload.length; i++)\<close> from position \<open>k\<close> on;
  \<open>idxs\<close> are the positions in \<^verbatim>\<open>this.chapters\<close> of the chapters still to upload.
\<close>

fun uploadLoop ::
  "(nat \<Rightarrow> ChapterState \<Rightarrow> upload_outcome) \<Rightarrow> nat list \<Rightarrow> int \<Rightarrow> ChapterUploader \<Rightarrow> run_log
     \<Rightarrow> ChapterUploader \<times> run_log" where
  "uploadLoop upload [] k u lg =
     (u\<lparr>up_status := UP_COMPLETED, up_progress := 1, up_error := None\<rparr>, lg)"
| "uploadLoop upload (j # rest) k u lg =
     (let u1 = u\<lparr>currentChapterIndex := k\<rparr>;
          chap = up_chapters u1 ! j
      in if chapterStatus chap = CH_COMPLETED
         then uploadLoop upload rest (k + 1) (checkProgress u1) lg
         else
           (case uploadChapterWithRetry upload j chap lg 1 of
              ((success, shouldStop), chap', lg') \<Rightarrow>
                (let u2 = u1\<lparr>up_chapters := (up_chapters u1)[j := chap']\<rparr>
                 in if shouldStop
                    then (stopRun u2 UP_STOPPED ''403 Forbidden: Access denied. Upload stopped.'', lg')
                    else if \<not> success
                    then (if hasNetworkError chap'
                          then (stopRun u2 UP_PAUSED
                                  ''Network error: Upload failed after 3 retry attempts. Upload paused. Please check your connection and resume manually.'',
                                lg')
                          else (stopRun u2 UP_FAILED
                                  (if truthy (chapterError chap') then orEmpty (chapterError chap')
                                   else ''Failed to upload chapter: ''
                                        @ (if truthy (chapterTitle chap') then orEmpty (chapterTitle chap')
                                           else ''Unknown'')),
                                lg'))
                    else uploadLoop upload rest (k + 1) (checkProgress u2) lg')))"

text \<open>
  \<^verbatim>\<open>deletePreexistingUploadSessions\<close> talks to the service; \<open>cleanup\<close> is how it settles
  (\<open>None\<close>: it resolves, \<open>Some e\<close>: it rejects with \<open>e\<close>).
\<close>

definition uploadAll ::
  "(nat \<Rightarrow> ChapterState \<Rightarrow> upload_outcome) \<Rightarrow> js_error option \<Rightarrow> ChapterUploader
     \<Rightarrow> ChapterUploader \<times> run_log" where
  "uploadAll upload cleanup u =
     (let lg0 = \<lparr>calls = 0, uploads = [], sleeps = []\<rparr>
      in if up_status u = UP_IN_PROGRESS then (u, lg0)
         else if \<not> truthy (authToken u)
         then (stopRun u UP_FAILED ''No authentication token provided'', lg0)
         else if length (up_chapters u) = 0
         then (stopRun u UP_FAILED ''No chapters to upload'', lg0)
         else
           (let u1 = u\<lparr>up_status := UP_IN_PROGRESS, up_progress := 0, up_error := None,
                       currentChapterIndex := 0\<rparr>
            in if (case cleanup of None \<Rightarrow> False | Some e \<Rightarrow> is403Error e)
               then (stopRun u1 UP_STOPPED ''403 Forbidden: Access denied'', lg0)
               else
                 (let chaptersToUpload =
                        filter (\<lambda>j. chapterStatus (up_chapters u1 ! j) \<noteq> CH_COMPLETED)
                               [0..<length (up_chapters u1)]
                  in uploadLoop upload chaptersToUpload 0 u1 lg0)))"

text \<open>How the code classifies what an upload call settled with.\<close>

fun is403Outcome :: "upload_outcome \<Rightarrow> bool" where
  "is403Outcome (Resolved chap) = (chapterStatus chap \<noteq> CH_COMPLETED \<and> has403Error chap)"
| "is403Outcome (Rejected e chap) = is403Error e"

fun isNetworkFailure :: "upload_outcome \<Rightarrow> bool" where
  "isNetworkFailure (Resolved chap) =
     (chapterStatus chap \<noteq> CH_COMPLETED \<and> \<not> has403Error chap \<and> hasNetworkError chap)"
| "isNetworkFailure (Rejected e chap) = (\<not> is403Error e \<and> isNetworkError e)"

fun isCompletedOutcome :: "upload_outcome \<Rightarrow> bool" where
  "isCompletedOutcome (Resolved chap) = (chapterStatus chap = CH_COMPLETED)"
| "isCompletedOutcome (Rejected e chap) = False"

text \<open>The state in which the chapter is handed to the next attempt.\<close>

fun nextInput :: "upload_outcome \<Rightarrow> ChapterState" where
  "nextInput (Resolved chap) = resetForRetry chap"
| "nextInput (Rejected e chap) = chap"

fun isResolved :: "upload_outcome \<Rightarrow> bool" where
  "isResolved (Resolved chap) = True"
| "isResolved (Rejected e chap) = False"

text \<open>
  The entries of a log that belong to chapter \<open>j\<close>: the upload calls of the run that
  were made on it, and the delays slept before its retries.
\<close>

definition entriesOf :: "nat \<Rightarrow> (nat \<times> 'a) list \<Rightarrow> 'a list" where
  "entriesOf j xs = map snd (filter (\<lambda>entry. fst entry = j) xs)"

definition uploadsOf :: "run_log \<Rightarrow> nat \<Rightarrow> (ChapterState \<times> upload_outcome) list" where
  "uploadsOf lg j = entriesOf j (uploads lg)"

definition sleepsOf :: "run_log \<Rightarrow> nat \<Rightarrow> nat list" where
  "sleepsOf lg j = entriesOf j (sleeps lg)"

subsection \<open>Failures and the reset in the words of the specification\<close>

text \<open>
  The error texts of a chapter are its own error and the errors of its pages. A text
  says forbidden when it contains \<^verbatim>\<open>403\<close> or \<^verbatim>\<open>Forbidden\<close>, and it says network error when
  in lower case it contains one of \<^verbatim>\<open>network\<close>, \<^verbatim>\<open>timeout\<close>, \<^verbatim>\<open>econnreset\<close>, \<^verbatim>\<open>enotfound\<close>,
  \<^verbatim>\<open>econnrefused\<close>. An upload call fails with 403 when it rejects with an axios error whose
  response has status 403 or with another error whose message says forbidden, or when it
  resolves with the chapter not completed and an error text that says forbidden. It fails
  with a network error when it rejects with an axios error that has no response, or when
  it resolves with the chapter not completed, no error text that says forbidden and one
  that says network error. To reset a chapter is to put it and each of its pages back to
  \<open>NOT_STARTED\<close> with progress 0, no error and no upload session.
\<close>

definition errorTexts_spec :: "ChapterState \<Rightarrow> string list" where
  "errorTexts_spec chap =
     concat (map (\<lambda>err. case err of None \<Rightarrow> [] | Some t \<Rightarrow> [t])
                 (chapterError chap # map pageError (pages chap)))"

definition saysForbidden_spec :: "string \<Rightarrow> bool" where
  "saysForbidden_spec t = (sublist ''403'' t \<or> sublist ''Forbidden'' t)"

definition saysNetworkError_spec :: "string \<Rightarrow> bool" where
  "saysNetworkError_spec t =
     list_ex (\<lambda>word. sublist word (toLowerCase t))
             [''network'', ''timeout'', ''econnreset'', ''enotfound'', ''econnrefused'']"

fun failedWith403_spec :: "upload_outcome \<Rightarrow> bool" where
  "failedWith403_spec (Rejected e chap) =
     (case e of AxiosError st \<Rightarrow> st = Some 403
              | PlainError message \<Rightarrow> saysForbidden_spec message
              | NonError \<Rightarrow> False)"
| "failedWith403_spec (Resolved chap) =
     (chapterStatus chap \<noteq> CH_COMPLETED \<and> list_ex saysForbidden_spec (errorTexts_spec chap))"

fun failedWithNetworkError_spec :: "upload_outcome \<Rightarrow> bool" where
  "failedWithNetworkError_spec (Rejected e chap) = (e = AxiosError None)"
| "failedWithNetworkError_spec (Resolved chap) =
     (chapterStatus chap \<noteq> CH_COMPLETED \<and> \<not> list_ex saysForbidden_spec (errorTexts_spec chap)
      \<and> list_ex saysNetworkError_spec (errorTexts_spec chap))"

fun completedBy_spec :: "upload_outcome \<Rightarrow> bool" where
  "completedBy_spec (Rejected e chap) = False"
| "completedBy_spec (Resolved chap) = (chapterStatus chap = CH_COMPLETED)"

definition reset_spec :: "ChapterState \<Rightarrow> ChapterState" where
  "reset_spec chap =
     \<lparr>chapterStatus = CH_NOT_STARTED, chapterProgress = 0, chapterError = None,
      associatedUploadSessionId = None,
      pages = map (\<lambda>page. \<lparr>pageStatus = PG_NOT_STARTED, pageProgress = 0, pageError = None,
                            associatedUploadSessionFileId = None\<rparr>) (pages chap),
      chapterTitle = chapterTitle chap\<rparr>"

subsection \<open>Sample behaviours of the upload call\<close>

text \<open>
  Four ways in which \<^verbatim>\<open>chapter.upload\<close> can settle, used to run the uploader on concrete
  inputs. The first call of a run completes the chapter in each of them. After that,
  \<open>recordsNetworkError\<close> resolves with the failure recorded in the chapter, as a call does
  that catches the error itself; \<open>rejectsWithoutResponse\<close> rejects with an axios error
  that has no response and records nothing in the chapter; \<open>rejectsRecordingError\<close>
  rejects with the same error after recording it in the chapter; \<open>rejectsForbidden\<close>
  rejects with an axios error whose response has status 403.
\<close>

definition completed :: "ChapterState \<Rightarrow> ChapterState" where
  "completed chap = chap\<lparr>chapterStatus := CH_COMPLETED, chapterProgress := 1\<rparr>"

definition recordsNetworkError :: "nat \<Rightarrow> ChapterState \<Rightarrow> upload_outcome" where
  "recordsNetworkError n chap =
     (if n = 0 then Resolved (completed chap)
      else Resolved (chap\<lparr>chapterStatus := CH_FAILED, chapterError := Some ''Network Error''\<rparr>))"

definition rejectsWithoutResponse :: "nat \<Rightarrow> ChapterState \<Rightarrow> upload_outcome" where
  "rejectsWithoutResponse n chap =
     (if n = 0 then Resolved (completed chap) else Rejected (AxiosError None) chap)"

definition rejectsRecordingError :: "nat \<Rightarrow> ChapterState \<Rightarrow> upload_outcome" where
  "rejectsRecordingError n chap =
     (if n = 0 then Resolved (completed chap)
      else Rejected (AxiosError None)
             (chap\<lparr>chapterStatus := CH_FAILED, chapterError := Some ''Network Error''\<rparr>))"

definition rejectsForbidden :: "nat \<Rightarrow> ChapterState \<Rightarrow> upload_outcome" where
  "rejectsForbidden n chap =
     (if n = 0 then Resolved (completed chap) else Rejected (AxiosError (Some 403)) chap)"

definition freshChapter :: ChapterState where
  "freshChapter =
     \<lparr>chapterStatus = CH_NOT_STARTED, chapterProgress = 0, chapterError = None,
      associatedUploadSessionId = None, pages = [], chapterTitle = None\<rparr>"

definition threeChapters :: ChapterUploader where
  "threeChapters =
     \<lparr>up_chapters = [freshChapter, freshChapter, freshChapter], up_status = UP_NOT_STARTED,
      up_progress = 0, up_error = None, currentChapterIndex = -1, authToken = Some ''token''\<rparr>"
section \<open>Facts about the JavaScript values\<close>


lemma orEmpty_simps [simp]: "orEmpty None = []" "orEmpty (Some s) = s"
  by (simp_all add: orEmpty_def)


section \<open>Properties of the rate limiter chain\<close>

lemma wait_within_free:
  "\<not> now - lastBucketStart b > rateLimitInterval b \<Longrightarrow> requestCount b < rateLimit b \<Longrightarrow>
   wait b now = (b\<lparr>requestCount := requestCount b + 1\<rparr>, None)"
  by (simp add: wait_def)

lemma wait_within_full:
  "\<not> now - lastBucketStart b > rateLimitInterval b \<Longrightarrow> requestCount b \<ge> rateLimit b \<Longrightarrow>
   wait b now = (b\<lparr>lastBucketStart := now, requestCount := 1\<rparr>,
                 Some (lastBucketStart b + rateLimitInterval b - now))"
  by (simp add: wait_def)

lemma wait_all_free:
  "(\<forall>t \<in> set ts. t - lastBucketStart b \<le> rateLimitInterval b) \<Longrightarrow>
   requestCount b + int (length ts) \<le> rateLimit b \<Longrightarrow>
   wait_all b ts = (b\<lparr>requestCount := requestCount b + int (length ts)\<rparr>, replicate (length ts) None)"
proof (induction ts arbitrary: b)
  case Nil
  then show ?case by simp
next
  case (Cons t ts)
  have w: "wait b t = (b\<lparr>requestCount := requestCount b + 1\<rparr>, None)"
    using Cons.prems by (intro wait_within_free) auto
  have "wait_all (b\<lparr>requestCount := requestCount b + 1\<rparr>) ts =
        ((b\<lparr>requestCount := requestCount b + 1\<rparr>)\<lparr>requestCount := requestCount (b\<lparr>requestCount := requestCount b + 1\<rparr>) + int (length ts)\<rparr>,
         replicate (length ts) None)"
    using Cons.prems by (intro Cons.IH) auto
  with w show ?case by (simp add: add.assoc add.commute)
qed

lemma wait_all_append:
  "wait_all b (ts @ us) =
     (case wait_all b ts of (b', ss) \<Rightarrow> (case wait_all b' us of (b'', ss') \<Rightarrow> (b'', ss @ ss')))"
  by (induction ts arbitrary: b) (auto split: prod.splits)

text \<open>
  Claim C5. In a window of a bucket with capacity \<open>c = rateLimit b\<close> in which
  \<open>requestCount b\<close> calls have reserved a slot so far (none for a newly constructed
  bucket), the next \<open>c - requestCount b\<close> calls made less than the interval after
  \<open>lastBucketStart b\<close> do not sleep, and the call after them, made in the same
  window, asks \<^verbatim>\<open>sleep\<close> for exactly the time left until
  \<open>lastBucketStart b + rateLimitInterval b\<close>: whatever time it really sleeps, if that
  is no less than what it asked for, it returns no earlier than the end of the window.
  For a newly constructed bucket these are the first \<open>c\<close> calls and call \<open>c + 1\<close>.
\<close>

theorem wait_capacity_then_block:
  assumes "0 \<le> requestCount b" and "requestCount b \<le> rateLimit b"
    and "int (length ts) = rateLimit b - requestCount b"
    and "\<forall>t \<in> set (ts @ [t']). t - lastBucketStart b < rateLimitInterval b"
  shows "snd (wait_all b (ts @ [t'])) =
           replicate (length ts) None @ [Some (lastBucketStart b + rateLimitInterval b - t')]
         \<and> (\<forall>slept \<ge> lastBucketStart b + rateLimitInterval b - t'.
               t' + slept \<ge> lastBucketStart b + rateLimitInterval b)"
proof -
  have free: "wait_all b ts = (b\<lparr>requestCount := rateLimit b\<rparr>, replicate (length ts) None)"
    using wait_all_free[of ts b] assms by (simp add: less_imp_le)
  have "wait (b\<lparr>requestCount := rateLimit b\<rparr>) t' =
        ((b\<lparr>requestCount := rateLimit b\<rparr>)\<lparr>lastBucketStart := t', requestCount := 1\<rparr>,
         Some (lastBucketStart (b\<lparr>requestCount := rateLimit b\<rparr>) + rateLimitInterval (b\<lparr>requestCount := rateLimit b\<rparr>) - t'))"
    using assms by (intro wait_within_full) auto
  with free show ?thesis by (simp add: wait_all_append)
qed

theorem wait_capacity_then_block_witness:
  "snd (wait_all (newApiWithRateLimit 3 1 5000) [5010, 5020, 5030, 5040]) = [None, None, None, Some 960]"
  using wait_capacity_then_block[of "newApiWithRateLimit 3 1 5000" "[5010, 5020, 5030]" 5040]
  by (simp add: newApiWithRateLimit_def)

text \<open>
  Claim C10. When \<^verbatim>\<open>wait()\<close> sleeps (the count has reached the capacity inside the
  window), the window it opens starts at the clock reading \<open>now\<close> taken on entry, not at
  the end of the old window \<open>lastBucketStart b + rateLimitInterval b\<close> and not at the
  time \<open>now + d\<close> at which the sleep of \<open>d\<close> ends. The new window is back-dated by
  \<open>d\<close>: counted from the moment the call returns, a later call already opens the next
  window once more than \<open>rateLimitInterval b - d\<close> has passed.
\<close>

theorem wait_blocked_backdates_window:
  assumes "wait b now = (b', Some d)"
  shows "lastBucketStart b' = now \<and> requestCount b' = 1
         \<and> d = lastBucketStart b + rateLimitInterval b - now
         \<and> (0 < d \<longrightarrow> lastBucketStart b' < lastBucketStart b + rateLimitInterval b
                      \<and> lastBucketStart b' < now + d)
         \<and> (now + d) - lastBucketStart b' = d
         \<and> (\<forall>t. (wait b' t = (b'\<lparr>lastBucketStart := t, requestCount := 1\<rparr>, None))
                  = (t - (now + d) > rateLimitInterval b - d))"
proof -
  from assms have c: "\<not> now - lastBucketStart b > rateLimitInterval b" "requestCount b \<ge> rateLimit b"
    by (auto simp: wait_def Let_def split: if_splits)
  from wait_within_full[OF c] assms
  have b': "b' = b\<lparr>lastBucketStart := now, requestCount := 1\<rparr>"
    and d: "d = lastBucketStart b + rateLimitInterval b - now" by auto
  have "(wait b' t = (b'\<lparr>lastBucketStart := t, requestCount := 1\<rparr>, None))
           = (t - (now + d) > rateLimitInterval b - d)" for t
  proof (cases "t - now > rateLimitInterval b")
    case True
    then show ?thesis unfolding b' d by (simp add: wait_def)
  next
    case False
    have "requestCount (fst (wait b' t)) \<noteq> 1 \<or> snd (wait b' t) \<noteq> None"
      using False unfolding b' by (simp add: wait_def)
    then have "wait b' t \<noteq> (b'\<lparr>lastBucketStart := t, requestCount := 1\<rparr>, None)"
      by auto
    with False show ?thesis unfolding d by simp
  qed
  then show ?thesis using b' d by auto
qed

theorem wait_blocked_backdates_window_witness:
  "wait \<lparr>rateLimit = 3, rateLimitInterval = 1000, lastBucketStart = 5000, requestCount = 3\<rparr> 5040
     = (\<lparr>rateLimit = 3, rateLimitInterval = 1000, lastBucketStart = 5040, requestCount = 1\<rparr>, Some 960)
   \<and> (wait \<lparr>rateLimit = 3, rateLimitInterval = 1000, lastBucketStart = 5040, requestCount = 1\<rparr> 6041
        = (\<lparr>rateLimit = 3, rateLimitInterval = 1000, lastBucketStart = 6041,  requestCount = 1\<rparr>, None))"
proof -
  have h: "wait \<lparr>rateLimit = 3, rateLimitInterval = 1000, lastBucketStart = 5000, requestCount = 3\<rparr> 5040
     = (\<lparr>rateLimit = 3, rateLimitInterval = 1000, lastBucketStart = 5040, requestCount = 1\<rparr>, Some 960)"
    by (simp add: wait_def)
  from wait_blocked_backdates_window[OF h] show ?thesis using h by simp
qed

lemma execute_Some_ends:
  assumes "execute request n s = Some r"
  shows "\<exists>j. \<forall>e. fst (request (n + j)) = Inl e \<longrightarrow> \<not> is429 e"
proof (rule execute.raw_induct[where P = "\<lambda>m n s r. \<exists>j. \<forall>e. fst (m (n + j)) = Inl e \<longrightarrow> \<not> is429 e", OF _ assms])
  fix exec :: "(nat \<Rightarrow> (js_error + 'a) \<times> int) \<Rightarrow> nat \<Rightarrow> exec_state \<Rightarrow> ((js_error + 'a) \<times> exec_state) option"
  fix m n s r
  assume IH: "\<And>m n s r. exec m n s = Some r \<Longrightarrow> \<exists>j. \<forall>e. fst (m (n + j)) = Inl e \<longrightarrow> \<not> is429 e"
  assume step: "(case fst (m n) of
        Inr v \<Rightarrow> Some (Inr v, oneRound m n s)
      | Inl e \<Rightarrow>
          if is429 e then exec m (Suc n) (oneRound m n s)
          else Some (Inl e, oneRound m n s)) = Some r"
  show "\<exists>j. \<forall>e. fst (m (n + j)) = Inl e \<longrightarrow> \<not> is429 e"
  proof (cases "\<exists>e. fst (m n) = Inl e \<and> is429 e")
    case True
    with step have "exec m (Suc n) (oneRound m n s) = Some r" by auto
    from IH[OF this] obtain j where "\<forall>e. fst (m (Suc n + j)) = Inl e \<longrightarrow> \<not> is429 e" by blast
    then show ?thesis by (intro exI[of _ "Suc j"]) simp
  next
    case False
    then show ?thesis by (intro exI[of _ 0]) auto
  qed
qed

lemma execute_finishes:
  assumes "\<forall>j<k. \<exists>e. fst (request (n + j)) = Inl e \<and> is429 e"
    and "\<forall>e. fst (request (n + k)) = Inl e \<longrightarrow> \<not> is429 e"
  shows "execute request n s = Some (fst (request (n + k)), rounds request (Suc k) n s)"
  using assms
proof (induction k arbitrary: n s)
  case 0
  then show ?case by (subst execute.simps) (auto split: sum.splits)
next
  case (Suc k)
  from Suc.prems(1) obtain e where e: "fst (request n) = Inl e" "is429 e" by force
  have "execute request (Suc n) (oneRound request n s)
        = Some (fst (request (Suc n + k)), rounds request (Suc k) (Suc n) (oneRound request n s))"
  proof (rule Suc.IH)
    show "\<forall>j<k. \<exists>e. fst (request (Suc n + j)) = Inl e \<and> is429 e"
      using Suc.prems(1) by (metis Suc_less_eq add_Suc_shift)
    show "\<forall>e. fst (request (Suc n + k)) = Inl e \<longrightarrow> \<not> is429 e"
      using Suc.prems(2) by simp
  qed
  then show ?case using e by (subst execute.simps) simp
qed

lemma wait_from_length: "length (limiters (wait_from i s)) = length (limiters s)"
proof (induction i s rule: wait_from.induct)
  case (1 i s)
  show ?case
  proof (cases "i < length (limiters s)")
    case True
    obtain b' sl where w: "wait (limiters s ! i) (clock s) = (b', sl)" by force
    from "1.IH"[OF True w[symmetric]] True w show ?thesis
      by (subst wait_from.simps) simp
  next
    case False
    then show ?thesis by (subst wait_from.simps) simp
  qed
qed

lemma wait_from_shape:
  "map shape (trace (wait_from i s)) = map shape (trace s) @ map Inl [i..<length (limiters s)]"
proof (induction i s rule: wait_from.induct)
  case (1 i s)
  show ?case
  proof (cases "i < length (limiters s)")
    case True
    obtain b' sl where w: "wait (limiters s ! i) (clock s) = (b', sl)" by force
    from "1.IH"[OF True w[symmetric]] True w show ?thesis
      by (subst wait_from.simps) (simp add: upt_conv_Cons)
  next
    case False
    then show ?thesis by (subst wait_from.simps) simp
  qed
qed

lemma wait_from_clock:
  "clock (wait_from i s) - sum_list (map slept (trace (wait_from i s)))
     = clock s - sum_list (map slept (trace s))"
proof (induction i s rule: wait_from.induct)
  case (1 i s)
  show ?case
  proof (cases "i < length (limiters s)")
    case True
    obtain b' sl where w: "wait (limiters s ! i) (clock s) = (b', sl)" by force
    from "1.IH"[OF True w[symmetric]] True w show ?thesis
      by (subst (1 2) wait_from.simps) (cases sl; simp)
  next
    case False
    then show ?thesis by (subst (1 2) wait_from.simps) simp
  qed
qed

lemma oneRound_length: "length (limiters (oneRound request n s)) = length (limiters s)"
  by (simp add: oneRound_def call_request_def wait_from_length)

lemma oneRound_shape:
  "map shape (trace (oneRound request n s))
     = map shape (trace s) @ map Inl [0..<length (limiters s)] @ [Inr n]"
  by (simp add: oneRound_def call_request_def wait_from_shape)

lemma oneRound_clock:
  "clock (oneRound request n s) - sum_list (map slept (trace (oneRound request n s)))
     = clock s - sum_list (map slept (trace s)) + snd (request n)"
  using wait_from_clock[of 0 s] by (simp add: oneRound_def call_request_def)

lemma rounds_shape:
  "map shape (trace (rounds request k n s))
     = map shape (trace s)
       @ concat (map (\<lambda>j. map Inl [0..<length (limiters s)] @ [Inr (n + j)]) [0..<k])"
proof (induction k arbitrary: n s)
  case 0
  then show ?case by simp
next
  case (Suc k)
  have "map (\<lambda>j. map Inl [0..<length (limiters s)] @ [Inr (n + j) :: nat + nat]) [0..<Suc k]
        = (map Inl [0..<length (limiters s)] @ [Inr n])
          # map (\<lambda>j. map Inl [0..<length (limiters s)] @ [Inr (Suc n + j)]) [0..<k]"
    by (simp add: upt_conv_Cons map_Suc_upt[symmetric] del: upt_Suc)
  then show ?case
    using Suc.IH[of "Suc n" "oneRound request n s"]
    by (simp add: oneRound_shape oneRound_length del: upt_Suc)
qed

lemma rounds_clock:
  "clock (rounds request k n s) - sum_list (map slept (trace (rounds request k n s)))
     = clock s - sum_list (map slept (trace s)) + (\<Sum>j<k. snd (request (n + j)))"
proof (induction k arbitrary: n s)
  case 0
  then show ?case by simp
next
  case (Suc k)
  have "(\<Sum>j<Suc k. snd (request (n + j))) = snd (request n) + (\<Sum>j<k. snd (request (Suc n + j)))"
    using sum.lessThan_Suc_shift[of "\<lambda>j. snd (request (n + j))" k] by simp
  then show ?case
    using Suc.IH[of "Suc n" "oneRound request n s"] oneRound_clock[of request n s]
    by (simp del: sum.lessThan_Suc)
qed

lemma wait_from_spec:
  "wait_from i s =
     (case waitOnEvery_spec (drop i (limiters s)) (clock s) of
        (waited, t') \<Rightarrow>
          s\<lparr>limiters := take i (limiters s) @ map fst waited,
            clock := t',
            trace := trace s @ map (\<lambda>(i, sl). Waited i sl) (List.enumerate i (map snd waited))\<rparr>)"
proof (induction i s rule: wait_from.induct)
  case (1 i s)
  show ?case
  proof (cases "i < length (limiters s)")
    case True
    obtain b' sl where w: "wait (limiters s ! i) (clock s) = (b', sl)" by force
    let ?s1 = "s\<lparr>limiters := (limiters s)[i := b'],
                  clock := clock s + (case sl of None \<Rightarrow> 0 | Some d \<Rightarrow> d),
                  trace := trace s @ [Waited i sl]\<rparr>"
    obtain waited t' where r: "waitOnEvery_spec (drop (Suc i) (limiters s)) (clock ?s1) = (waited, t')"
      by force
    have d: "drop i (limiters s) = limiters s ! i # drop (Suc i) (limiters s)"
      using True by (simp add: Cons_nth_drop_Suc)
    have tk: "take (Suc i) ((limiters s)[i := b']) = take i (limiters s) @ [b']"
      using True by (simp add: take_Suc_conv_app_nth)
    have "wait_from i s = wait_from (Suc i) ?s1"
      using True w by (subst wait_from.simps) simp
    also have "\<dots> = ?s1\<lparr>limiters := take (Suc i) (limiters ?s1) @ map fst waited,
            clock := t',
            trace := trace ?s1 @ map (\<lambda>(i, sl). Waited i sl) (List.enumerate (Suc i) (map snd waited))\<rparr>"
      using "1.IH"[OF True w[symmetric]] r by simp
    also have "\<dots> = s\<lparr>limiters := take i (limiters s) @ map fst ((b', sl) # waited),
            clock := t',
            trace := trace s @ map (\<lambda>(i, sl). Waited i sl) (List.enumerate i (map snd ((b', sl) # waited)))\<rparr>"
      using tk by simp
    finally show ?thesis
      unfolding d using w r by simp
  next
    case False
    then show ?thesis by (subst wait_from.simps) simp
  qed
qed

lemma oneRound_spec: "oneRound request j s = round_spec request s j"
  unfolding oneRound_def call_request_def round_spec_def wait_from_spec
  by (simp split: prod.splits)

lemma rounds_spec:
  "rounds request k n s = foldl (round_spec request) s [n..<n + k]"
proof (induction k arbitrary: n s)
  case 0
  then show ?case by simp
next
  case (Suc k)
  have "[n..<n + Suc k] = n # [Suc n..<Suc n + k]" by (simp add: upt_conv_Cons)
  then show ?case using Suc.IH[of "Suc n" "oneRound request n s"]
    by (simp add: oneRound_spec del: upt_Suc)
qed

text \<open>
  Claim C6. \<^verbatim>\<open>RateLimitedRequest.execute\<close>: if the invocations \<open>n, \<dots>, n + k - 1\<close> of
  the operation reject with status 429 and invocation \<open>n + k\<close> settles in any other way
  (a value, another status, no response, or another kind of error), then \<open>execute\<close>
  settles in that same way after exactly \<open>k + 1\<close> rounds, for any \<open>k\<close>. The state it
  leaves is the one reached by the rounds \<open>round_spec\<close> for the invocations
  \<open>n, \<dots>, n + k\<close>: every round calls \<^verbatim>\<open>wait()\<close> on every limiter of the chain in the
  configured order, each call at the time the one before it returned and on the bucket
  the earlier rounds left, and then invokes the operation once. So the trace shows the
  limiters in order and then the invocation, round after round, and the clock moves only
  by the sleeps of the limiters and the time the operation takes. If every invocation
  rejects with 429, \<open>execute\<close> never settles.
\<close>

theorem execute_retries_on_429_only:
  "((\<forall>j<k. \<exists>e. fst (request (n + j)) = Inl e \<and> is429 e)
      \<and> (\<forall>e. fst (request (n + k)) = Inl e \<longrightarrow> \<not> is429 e)
     \<longrightarrow> (\<exists>s'. execute request n s = Some (fst (request (n + k)), s')
            \<and> s' = foldl (round_spec request) s [n..<n + Suc k]
            \<and> map shape (trace s') = map shape (trace s)
                @ concat (map (\<lambda>j. map Inl [0..<length (limiters s)] @ [Inr (n + j)]) [0..<Suc k])
            \<and> clock s' - clock s
                = (sum_list (map slept (trace s')) - sum_list (map slept (trace s)))
                  + (\<Sum>j<Suc k. snd (request (n + j)))))
   \<and> ((\<forall>j. \<exists>e. fst (request (n + j)) = Inl e \<and> is429 e) \<longrightarrow> execute request n s = None)"
proof (intro conjI impI)
  assume a: "(\<forall>j<k. \<exists>e. fst (request (n + j)) = Inl e \<and> is429 e)
      \<and> (\<forall>e. fst (request (n + k)) = Inl e \<longrightarrow> \<not> is429 e)"
  let ?s' = "rounds request (Suc k) n s"
  have "execute request n s = Some (fst (request (n + k)), ?s')"
    using a by (intro execute_finishes) auto
  moreover have "?s' = foldl (round_spec request) s [n..<n + Suc k]"
    by (rule rounds_spec)
  moreover have "map shape (trace ?s') = map shape (trace s)
                @ concat (map (\<lambda>j. map Inl [0..<length (limiters s)] @ [Inr (n + j)]) [0..<Suc k])"
    by (rule rounds_shape)
  moreover have "clock ?s' - clock s
                = (sum_list (map slept (trace ?s')) - sum_list (map slept (trace s)))
                  + (\<Sum>j<Suc k. snd (request (n + j)))"
    using rounds_clock[of request "Suc k" n s] by linarith
  ultimately show "\<exists>s'. execute request n s = Some (fst (request (n + k)), s')
            \<and> s' = foldl (round_spec request) s [n..<n + Suc k]
            \<and> map shape (trace s') = map shape (trace s)
                @ concat (map (\<lambda>j. map Inl [0..<length (limiters s)] @ [Inr (n + j)]) [0..<Suc k])
            \<and> clock s' - clock s
                = (sum_list (map slept (trace s')) - sum_list (map slept (trace s)))
                  + (\<Sum>j<Suc k. snd (request (n + j)))"
    by blast
next
  assume a: "\<forall>j. \<exists>e. fst (request (n + j)) = Inl e \<and> is429 e"
  show "execute request n s = None"
  proof (cases "execute request n s")
    case None
    then show ?thesis .
  next
    case (Some r)
    from execute_Some_ends[OF Some] a show ?thesis by blast
  qed
qed

theorem execute_retries_on_429_only_witness:
  "execute twice429Then500 0
       \<lparr>limiters = [newApiWithRateLimit 20 60 0, newApiWithRateLimit 1 1 0], clock = 10, trace = []\<rparr>
     = Some (Inl (AxiosError (Some 500)),
             \<lparr>limiters = [\<lparr>rateLimit = 20, rateLimitInterval = 60000, lastBucketStart = 0,
                            requestCount = 3\<rparr>,
                          \<lparr>rateLimit = 1, rateLimitInterval = 1000, lastBucketStart = 1005,
                            requestCount = 1\<rparr>],
               clock = 1022,
               trace = [Waited 0 None, Waited 1 None, Called 0,
                        Waited 0 None, Waited 1 (Some 985), Called 1,
                        Waited 0 None, Waited 1 (Some 10), Called 2]\<rparr>)
   \<and> execute always429 0
       \<lparr>limiters = [newApiWithRateLimit 20 60 0, newApiWithRateLimit 1 1 0], clock = 10, trace = []\<rparr>
     = None"
proof -
  let ?s = "\<lparr>limiters = [newApiWithRateLimit 20 60 0, newApiWithRateLimit 1 1 0], clock = 10, trace = []\<rparr>"
  have h1: "(\<forall>j<2. \<exists>e. fst (twice429Then500 (0 + j)) = Inl e \<and> is429 e)
      \<and> (\<forall>e. fst (twice429Then500 (0 + 2)) = Inl e \<longrightarrow> \<not> is429 e)"
    by (simp add: twice429Then500_def is429_def)
  have h2: "\<forall>j. \<exists>e. fst (always429 (0 + j)) = Inl e \<and> is429 e"
    by (simp add: always429_def is429_def)
  have u: "[0..<0 + Suc 2] = [0, 1, 2]" by (simp add: upt_conv_Cons)
  have r: "foldl (round_spec twice429Then500) ?s [0, 1, 2]
     = \<lparr>limiters = [\<lparr>rateLimit = 20, rateLimitInterval = 60000, lastBucketStart = 0,
                            requestCount = 3\<rparr>,
                          \<lparr>rateLimit = 1, rateLimitInterval = 1000, lastBucketStart = 1005,
                            requestCount = 1\<rparr>],
               clock = 1022,
               trace = [Waited 0 None, Waited 1 None, Called 0,
                        Waited 0 None, Waited 1 (Some 985), Called 1,
                        Waited 0 None, Waited 1 (Some 10), Called 2]\<rparr>"
    by (simp add: round_spec_def wait_def newApiWithRateLimit_def twice429Then500_def
          List.enumerate_simps)
  have v: "fst (twice429Then500 (0 + 2)) = Inl (AxiosError (Some 500))"
    by (simp add: twice429Then500_def)
  from execute_retries_on_429_only[of 2 twice429Then500 0 ?s] h1
  obtain s' where "execute twice429Then500 0 ?s = Some (fst (twice429Then500 (0 + 2)), s')"
    and "s' = foldl (round_spec twice429Then500) ?s [0..<0 + Suc 2]"
    by blast
  then have one: "execute twice429Then500 0 ?s
     = Some (Inl (AxiosError (Some 500)), foldl (round_spec twice429Then500) ?s [0, 1, 2])"
    unfolding v u by simp
  from execute_retries_on_429_only[of 0 always429 0 ?s] h2
  have two: "execute always429 0 ?s = None" by blast
  from one two show ?thesis unfolding r by simp
qed

section \<open>Properties of the group matcher\<close>

lemma groupNameInString_iff:
  "groupNameInString g s =
     (\<exists>content. lastBracketMatch s = Some content
        \<and> content \<in> normalizeName ` (insert (primaryName g) (set (altNames g))))"
  by (auto simp: groupNameInString_def list_ex_iff split: option.splits)

text \<open>
  Claim C9. The claim asks for a substring match inside the trailing bracketed segment,
  as the comment above \<^verbatim>\<open>groupNameInString\<close> does. The code compares the whole content of
  the segment with the normalised name (\<open>groupNameInString_iff\<close>): the folder
  \<^verbatim>\<open>Vol 1/Ch 5 [Foo Scans]\<close> is not matched to the group \<^verbatim>\<open>Foo\<close>, which the rule of the
  claim matches.
\<close>

theorem matchGroupsToChapter_needs_equal_name:
  "matchGroupsToChapter (Some ''Vol 1/Ch 5 [Foo Scans]'') [\<lparr>primaryName = ''Foo'', altNames = []\<rparr>] = []
   \<and> matchGroupsToChapter_spec (Some ''Vol 1/Ch 5 [Foo Scans]'') [\<lparr>primaryName = ''Foo'', altNames = []\<rparr>]
       = [\<lparr>primaryName = ''Foo'', altNames = []\<rparr>]"
  by code_simp

section \<open>Properties of the duplicate detection\<close>




















section \<open>Properties of the release lookup\<close>

lemma hasMatchingGroupName_iff:
  "hasMatchingGroupName groupNames ci =
     (\<exists>n \<in> set groupNames. \<exists>g \<in> set (ci_groups ci). n = primaryName g \<or> n \<in> set (altNames g))"
  by (auto simp: hasMatchingGroupName_def groupMatches_def list_ex_iff)

lemma find_filter: "find P (filter Q xs) = find (\<lambda>x. Q x \<and> P x) xs"
  by (induction xs) auto

lemma hd_filter_find: "(case filter Q xs of [] \<Rightarrow> None | x # _ \<Rightarrow> Some (f x)) = map_option f (find Q xs)"
  by (induction xs) auto

text \<open>
  Claim C8, as the code has it. The exact-match query takes the entries stored at the key
  \<^verbatim>\<open>volume|chapter\<close> (\<^verbatim>\<open>null\<close> read as the empty string), keeps those of the language,
  then those with a group whose primary or alternative name is among the group names,
  and returns the first one (as a \<open>ResolvedChapterInfo\<close>) or \<^verbatim>\<open>null\<close>. When the list of
  group names is empty it applies no group filter: the first entry of the language is
  returned whether it has groups or not.
\<close>

theorem findReleasesForChapter_first_qualifying:
  "findReleasesForChapter dat seriesId vol chap lang groupNames =
     map_option buildResolved
       (find (\<lambda>ci. groupNames = []
                    \<or> (\<exists>n \<in> set groupNames. \<exists>g \<in> set (ci_groups ci).
                          n = primaryName g \<or> n \<in> set (altNames g)))
             (filter (\<lambda>ci. ci_language ci = lang)
                     (entriesAt dat seriesId (keyOf (orEmpty vol) (orEmpty chap)))))"
proof (cases "groupNames = []")
  case True
  then show ?thesis
    by (auto simp: findReleasesForChapter_def getChapterInfo_def entriesAt_def Let_def
                   find_filter hd_filter_find
             split: option.splits)
next
  case False
  have "find (\<lambda>ci. hasMatchingGroupName groupNames ci) xs = None" if "xs = []" for xs :: "ChapterInfo list"
    using that by simp
  with False show ?thesis
    by (auto simp: findReleasesForChapter_def getChapterInfoByGroups_def entriesAt_def Let_def
                   hasMatchingGroupName_iff
             split: option.splits)
qed

theorem findReleasesForChapter_first_qualifying_witness:
  "findReleasesForChapter
     [(''S1'', seriesMapOf
         [\<lparr>ci_volume = ''1'', ci_chapter = ''5'', ci_title = ''Hello'',
           ci_groups = [\<lparr>primaryName = ''Foo'', altNames = []\<rparr>], ci_language = ''en''\<rparr>])]
     ''S1'' (Some ''1'') (Some ''5'') ''en'' [''Foo'']
   = Some \<lparr>groups = [\<lparr>primaryName = ''Foo'', altNames = []\<rparr>],
           groupTitles = [(''Foo'', Some ''Hello'')], ungroupedTitles = []\<rparr>"
  using findReleasesForChapter_first_qualifying[of
     "[(''S1'', seriesMapOf
         [\<lparr>ci_volume = ''1'', ci_chapter = ''5'', ci_title = ''Hello'',
           ci_groups = [\<lparr>primaryName = ''Foo'', altNames = []\<rparr>], ci_language = ''en''\<rparr>])]"
     "''S1''" "Some ''1''" "Some ''5''" "''en''" "[''Foo'']"]
  by (simp add: entriesAt_def seriesMapOf_def addChapterInfo_def keyOf_def buildResolved_def
                objSet_def titleOrNull_def trimIsEmpty_def isWhiteSpace_def)

text \<open>
  Claim C8 as stated fails for an empty list of group names: the only entry at the key has
  a group, the rule of the claim keeps ungrouped entries only and finds none, the code
  returns the entry.
\<close>

theorem exactMatch_empty_names_counterexample:
  "findReleasesForChapter
     [(''S1'', seriesMapOf
         [\<lparr>ci_volume = ''1'', ci_chapter = ''5'', ci_title = ''Hello'',
           ci_groups = [\<lparr>primaryName = ''Foo'', altNames = []\<rparr>], ci_language = ''en''\<rparr>])]
     ''S1'' (Some ''1'') (Some ''5'') ''en'' []
   = Some \<lparr>groups = [\<lparr>primaryName = ''Foo'', altNames = []\<rparr>],
           groupTitles = [(''Foo'', Some ''Hello'')], ungroupedTitles = []\<rparr>
   \<and> exactMatch_spec
     [(''S1'', seriesMapOf
         [\<lparr>ci_volume = ''1'', ci_chapter = ''5'', ci_title = ''Hello'',
           ci_groups = [\<lparr>primaryName = ''Foo'', altNames = []\<rparr>], ci_language = ''en''\<rparr>])]
     ''S1'' (Some ''1'') (Some ''5'') ''en'' []
   = None"
  by code_simp

section \<open>Properties of the change engine\<close>

lemma applyChangesToChapter_found:
  assumes "lookupChapterRelease dat c seriesId
             (List.map_filter (createGroupIdToNameMap scan) (groupIds c)) (useFallbackMatching opts)
           = Some cr"
    and "groupIds c \<noteq> [] \<or> isNoGroupChapter opts c"
    and "List.map_filter (createGroupIdToNameMap scan) (groupIds c) \<noteq> [] \<or> isNoGroupChapter opts c"
  shows "applyChangesToChapter dat scan seriesId opts c =
           (let calc = calculateChangesFromRelease dat c cr scan seriesId
                         (List.map_filter (createGroupIdToNameMap scan) (groupIds c))
                         (isNoGroupChapter opts c);
                chs = fst calc; res = resolutionResultOf (snd calc)
            in \<lparr>status = (if volume chs \<noteq> None \<or> title chs \<noteq> None \<or> additionalGroupIds chs \<noteq> []
                           then SUCCESS else NO_CHANGES),
                changes = Some chs,
                warnings = volumeMismatchWarnings (chapterVolume c) res @ partialGroupMatchWarnings res,
                resolutionResult = Some res\<rparr>)"
  using assms
  by (auto simp: applyChangesToChapter_def Let_def split: prod.splits)


lemma emptyToNull_simps [simp]:
  "emptyToNull None = None" "emptyToNull (Some []) = None"
  "s \<noteq> [] \<Longrightarrow> emptyToNull (Some s) = Some s"
  "emptyToNull (emptyToNull x) = emptyToNull x"
  by (simp_all add: emptyToNull_def)





lemma split_on_not_Nil: "split_on d k \<noteq> []"
  by (induction k) (auto split: list.splits)

lemma split_on_one: "split_on d k = [b] \<Longrightarrow> k = b"
proof (induction k arbitrary: b)
  case Nil
  then show ?case by simp
next
  case (Cons c cs)
  then show ?case by (auto simp: split_on_not_Nil split: if_splits list.splits)
qed

lemma split_on_two: "split_on d k = [a, b] \<Longrightarrow> k = a @ d # b"
proof (induction k arbitrary: a)
  case Nil
  then show ?case by simp
next
  case (Cons c cs)
  show ?case
  proof (cases "c = d")
    case True
    with Cons.prems have "a = []" "split_on d cs = [b]" by auto
    with True split_on_one[of d cs b] show ?thesis by simp
  next
    case False
    with Cons.prems obtain seg where "split_on d cs = [seg, b]" "a = c # seg"
      by (auto split: list.splits)
    with Cons.IH[of seg] show ?thesis by simp
  qed
qed

lemma split_on_no_sep: "d \<notin> set s \<Longrightarrow> split_on d s = [s]"
  by (induction s) auto

lemma split_on_append_sep:
  "d \<notin> set a \<Longrightarrow> split_on d (a @ d # b) = a # split_on d b"
  by (induction a) (auto split: list.splits)

lemma split_on_keyOf:
  "CHR ''|'' \<notin> set v \<Longrightarrow> CHR ''|'' \<notin> set c \<Longrightarrow> split_on CHR ''|'' (keyOf v c) = [v, c]"
  by (simp add: keyOf_def split_on_append_sep split_on_no_sep)

lemma byChapterAndGroups_Some:
  assumes "byChapterAndGroups chapterStr names lang sm = Some (fv, info)"
  shows "\<exists>key infos ci rest. (key, infos) \<in> set sm \<and> split_on CHR ''|'' key = fv # chapterStr # rest
           \<and> find (\<lambda>ci. if length names = 0 then \<not> length (ci_groups ci) > 0
                          else hasMatchingGroupName names ci)
                   (filter (\<lambda>ci. ci_language ci = lang) infos) = Some ci
           \<and> info = buildResolved ci"
  using assms
proof (induction sm)
  case Nil
  then show ?case by simp
next
  case (Cons p sm)
  obtain key infos where p: "p = (key, infos)" by (cases p)
  let ?crit = "\<lambda>ci. if length names = 0 then \<not> length (ci_groups ci) > 0
                          else hasMatchingGroupName names ci"
  show ?case
  proof (cases "(case split_on CHR ''|'' key of _ # c # _ \<Rightarrow> Some c | _ \<Rightarrow> None) = Some chapterStr
                \<and> find ?crit (filter (\<lambda>ci. ci_language ci = lang) infos) \<noteq> None")
    case True
    then obtain ci where ci: "find ?crit (filter (\<lambda>ci. ci_language ci = lang) infos) = Some ci" by auto
    from True obtain v rest where sp: "split_on CHR ''|'' key = v # chapterStr # rest"
      by (auto split: list.splits)
    from Cons.prems p True ci sp have "fv = v" "info = buildResolved ci"
      by (auto simp: Let_def)
    moreover have "(key, infos) \<in> set (p # sm)" using p by simp
    ultimately show ?thesis using ci sp by blast
  next
    case False
    with Cons.prems p have "byChapterAndGroups chapterStr names lang sm = Some (fv, info)"
      by (auto simp: Let_def split: option.splits if_splits)
    from Cons.IH[OF this] obtain key' infos' ci' rest' where
      "(key', infos') \<in> set sm" and rest: "split_on CHR ''|'' key' = fv # chapterStr # rest'"
      "find ?crit (filter (\<lambda>ci. ci_language ci = lang) infos') = Some ci'" "info = buildResolved ci'"
      by blast
    then have "(key', infos') \<in> set (p # sm)" by simp
    with rest show ?thesis by blast
  qed
qed

lemma fallback_volume_differs:
  assumes wk: "wellKeyed sm" and dat: "map_of dat seriesId = Some sm"
    and exact: "findReleasesForChapter dat seriesId vol chap lang names = None"
    and fb: "getChapterInfoByChapterAndGroups dat seriesId chap names lang = Some (fv, info)"
  shows "fv \<noteq> orEmpty vol"
proof
  assume eq: "fv = orEmpty vol"
  let ?crit = "\<lambda>ci. if length names = 0 then \<not> length (ci_groups ci) > 0
                          else hasMatchingGroupName names ci"
  from fb dat have "byChapterAndGroups (orEmpty chap) names lang sm = Some (fv, info)"
    by (simp add: getChapterInfoByChapterAndGroups_def)
  from byChapterAndGroups_Some[OF this] obtain key infos ci rest where
    mem: "(key, infos) \<in> set sm" and sp: "split_on CHR ''|'' key = fv # orEmpty chap # rest"
    and f: "find ?crit (filter (\<lambda>ci. ci_language ci = lang) infos) = Some ci"
    by blast
  from wk mem have "length (split_on CHR ''|'' key) = 2"
    by (auto simp: wellKeyed_def list_all_iff)
  with sp have sp2: "split_on CHR ''|'' key = [fv, orEmpty chap]" by simp
  from split_on_two[OF sp2] eq have key: "key = keyOf (orEmpty vol) (orEmpty chap)"
    by (simp add: keyOf_def)
  from wk mem have look: "map_of sm key = Some infos"
    by (simp add: wellKeyed_def)
  from f have ne: "filter (\<lambda>ci. ci_language ci = lang) infos \<noteq> []" by auto
  show False
  proof (cases "names = []")
    case True
    with exact dat look key ne show False
      by (auto simp: findReleasesForChapter_def getChapterInfo_def Let_def split: list.splits)
  next
    case False
    with exact dat look key ne f show False
      by (auto simp: findReleasesForChapter_def getChapterInfoByGroups_def Let_def)
  qed
qed

lemma map_fst_append_entry:
  "map fst (map (\<lambda>(k, infos). if k = key then (k, infos @ [ci]) else (k, infos)) sm) = map fst sm"
  by (induction sm) auto

lemma addChapterInfo_map_fst:
  "map fst (addChapterInfo sm ci) =
     (if keyOf (ci_volume ci) (ci_chapter ci) \<in> set (map fst sm) then map fst sm
      else map fst sm @ [keyOf (ci_volume ci) (ci_chapter ci)])"
  unfolding addChapterInfo_def Let_def
  by (simp add: map_fst_append_entry del: map_map)

lemma addChapterInfo_keys:
  "set (map fst (addChapterInfo sm ci)) = insert (keyOf (ci_volume ci) (ci_chapter ci)) (set (map fst sm))"
  unfolding addChapterInfo_map_fst by auto

lemma addChapterInfo_distinct:
  "distinct (map fst sm) \<Longrightarrow> distinct (map fst (addChapterInfo sm ci))"
  unfolding addChapterInfo_map_fst by auto

lemma addChapterInfo_wellKeyed:
  assumes "wellKeyed sm" "CHR ''|'' \<notin> set (ci_volume ci)" "CHR ''|'' \<notin> set (ci_chapter ci)"
  shows "wellKeyed (addChapterInfo sm ci)"
proof -
  have keys: "\<forall>k \<in> set (map fst (addChapterInfo sm ci)). length (split_on CHR ''|'' k) = 2"
    using assms unfolding addChapterInfo_keys
    by (auto simp: wellKeyed_def list_all_iff split_on_keyOf)
  have "list_all (\<lambda>(key, infos). length (split_on CHR ''|'' key) = 2) (addChapterInfo sm ci)"
    unfolding list_all_iff using keys by force
  with addChapterInfo_distinct[of sm ci] assms(1) show ?thesis
    by (simp add: wellKeyed_def)
qed

lemma seriesMapOf_wellKeyed:
  assumes "\<forall>ci \<in> set rows. CHR ''|'' \<notin> set (ci_volume ci) \<and> CHR ''|'' \<notin> set (ci_chapter ci)"
  shows "wellKeyed (seriesMapOf rows)"
proof -
  have "wellKeyed sm \<Longrightarrow> wellKeyed (foldl addChapterInfo sm rows)" for sm
    using assms by (induction rows arbitrary: sm) (auto intro: addChapterInfo_wellKeyed)
  then show ?thesis by (simp add: seriesMapOf_def wellKeyed_def)
qed

lemma calculateChanges_fields:
  "rel_usedFallback (snd (calculateChangesFromRelease dat c cr scan seriesId names ng)) = rel_usedFallback cr"
  "rel_volume (snd (calculateChangesFromRelease dat c cr scan seriesId names ng)) = rel_volume cr"
  "release (snd (calculateChangesFromRelease dat c cr scan seriesId names ng)) = release cr"
  "volume (fst (calculateChangesFromRelease dat c cr scan seriesId names ng))
     = determineVolumeChange (chapterVolume c) (rel_volume cr)"
  by (simp_all add: calculateChangesFromRelease_def Let_def split: option.splits)


lemma applyChangesToChapter_failed:
  assumes "resolutionResult (applyChangesToChapter dat scan seriesId opts c) = None"
  shows "\<forall>w \<in> set (warnings (applyChangesToChapter dat scan seriesId opts c)). reason w \<noteq> VOLUME_MISMATCH"
  using assms
  by (auto simp: applyChangesToChapter_def Let_def failedResult_def split: option.splits prod.splits if_splits)

lemma applyChangesToChapter_resolved:
  assumes "resolutionResult (applyChangesToChapter dat scan seriesId opts c) = Some res"
  shows "\<exists>cr. lookupChapterRelease dat c seriesId
             (List.map_filter (createGroupIdToNameMap scan) (groupIds c)) (useFallbackMatching opts)
           = Some cr
         \<and> (groupIds c \<noteq> [] \<or> isNoGroupChapter opts c)
         \<and> (List.map_filter (createGroupIdToNameMap scan) (groupIds c) \<noteq> [] \<or> isNoGroupChapter opts c)"
  using assms
  by (auto simp: applyChangesToChapter_def Let_def failedResult_def split: option.splits prod.splits if_splits)

lemma partialGroupMatchWarnings_reason:
  "\<forall>w \<in> set (partialGroupMatchWarnings res). reason w = PARTIAL_GROUP_MATCH"
  by (simp add: partialGroupMatchWarnings_def Let_def)

lemma filter_partial_mismatch [simp]:
  "filter (\<lambda>w. reason w = VOLUME_MISMATCH) (partialGroupMatchWarnings res) = []"
  by (simp add: partialGroupMatchWarnings_def Let_def)

lemma lookupChapterRelease_eq:
  "lookupChapterRelease dat c seriesId names fb =
     (case findReleasesForChapter dat seriesId (chapterVolume c) (chapterNumber c) (language c) names of
        Some rel \<Rightarrow>
          Some \<lparr>release = rel, rel_volume = chapterVolume c, rel_usedFallback = False,
                rel_title = None, rel_matchedGroupName = None\<rparr>
      | None \<Rightarrow>
          if fb \<and> truthy (chapterNumber c)
          then (case getChapterInfoByChapterAndGroups dat seriesId (chapterNumber c) names (language c) of
                  Some (fv, info) \<Rightarrow>
                    Some \<lparr>release = info, rel_volume = Some fv, rel_usedFallback = True,
                          rel_title = None, rel_matchedGroupName = None\<rparr>
                | None \<Rightarrow> None)
          else None)"
  by (simp add: lookupChapterRelease_def matchChapterToRelease_def split: option.splits)

lemma failedResult_no_mismatch:
  "r \<noteq> VOLUME_MISMATCH \<Longrightarrow> \<forall>w \<in> set (warnings (failedResult r n)). reason w \<noteq> VOLUME_MISMATCH"
  by (simp add: failedResult_def)

lemma map_filter_Nil_groups: "groupIds c = [] \<Longrightarrow> List.map_filter f (groupIds c) = []"
  by (simp add: List.map_filter_simps)

text \<open>
  The warning on every dump. The result of a chapter carries a \<open>VOLUME_MISMATCH\<close> warning
  exactly if the fallback-by-chapter lookup is used for it, \<open>fallbackMatch_spec\<close>. There
  is then one such warning, and its note is \<^verbatim>\<open>Changed volume from X to Y\<close> with the
  original volume for \<^verbatim>\<open>X\<close> (\<^verbatim>\<open>N/A\<close> when it is \<^verbatim>\<open>null\<close>) and the implied volume for
  \<^verbatim>\<open>Y\<close> (\<^verbatim>\<open>N/A\<close> when it is empty); the volume is staged to the implied volume, an empty
  one as \<^verbatim>\<open>null\<close>, if that differs from the chapter's volume. When the index of the
  series is well keyed (no volume or chapter of the dump contains \<^verbatim>\<open>|\<close>, see
  \<open>seriesMapOf_wellKeyed\<close>), the volume implied by the fallback always differs from the
  chapter's volume: the warning is emitted exactly if the fallback is used and the
  implied volume differs, and the volume is then staged, which is Claim C3.
\<close>

theorem volume_mismatch_iff_fallback:
  assumes "i < length chapters"
    and "r = results (applyChangesFromDump dat chapters scan seriesId opts) ! i"
    and "c = chapters ! i"
  shows "((\<exists>w \<in> set (warnings r). reason w = VOLUME_MISMATCH)
            = (fallbackMatch_spec dat scan seriesId opts c \<noteq> None))
         \<and> (\<forall>fv info. fallbackMatch_spec dat scan seriesId opts c = Some (fv, info) \<longrightarrow>
               filter (\<lambda>w. reason w = VOLUME_MISMATCH) (warnings r)
                      = [\<lparr>reason = VOLUME_MISMATCH,
                          noteText = ''Changed volume from ''
                            @ (case chapterVolume c of None \<Rightarrow> ''N/A'' | Some v \<Rightarrow> v)
                            @ '' to '' @ (if fv = [] then ''N/A'' else fv)\<rparr>]
               \<and> map_option volume (changes r)
                      = Some (if chapterVolume c \<noteq> (if fv = [] then None else Some fv)
                              then Some (if fv = [] then None else Some fv) else None))
         \<and> ((\<forall>sm. map_of dat seriesId = Some sm \<longrightarrow> wellKeyed sm) \<longrightarrow>
               ((\<exists>w \<in> set (warnings r). reason w = VOLUME_MISMATCH)
                  = (\<exists>fv info. fallbackMatch_spec dat scan seriesId opts c = Some (fv, info)
                       \<and> fv \<noteq> orEmpty (chapterVolume c)))
               \<and> (\<forall>fv info. fallbackMatch_spec dat scan seriesId opts c = Some (fv, info) \<longrightarrow>
                     fv \<noteq> orEmpty (chapterVolume c)
                     \<and> map_option volume (changes r)
                         = Some (Some (if fv = [] then None else Some fv))))"
proof -
  let ?names = "List.map_filter (createGroupIdToNameMap scan) (groupIds c)"
  let ?ng = "isNoGroupChapter opts c"
  let ?exact = "findReleasesForChapter dat seriesId (chapterVolume c) (chapterNumber c) (language c) ?names"
  let ?fb = "getChapterInfoByChapterAndGroups dat seriesId (chapterNumber c) ?names (language c)"
  let ?fm = "fallbackMatch_spec dat scan seriesId opts c"
  let ?vm = "\<exists>w \<in> set (warnings r). reason w = VOLUME_MISMATCH"
  have r: "r = applyChangesToChapter dat scan seriesId opts c"
    using assms by (simp add: applyChangesFromDump_def Let_def)
  have fm: "?fm = (if (?names \<noteq> [] \<or> ?ng) \<and> ?exact = None \<and> useFallbackMatching opts
                      \<and> truthy (chapterNumber c) then ?fb else None)"
    by (simp add: fallbackMatch_spec_def Let_def)
  have staged': "determineVolumeChange (chapterVolume c) (Some v)
                     = Some (if v = [] then None else Some v)" if "v \<noteq> orEmpty (chapterVolume c)" for v
    using that by (cases "chapterVolume c") (auto simp: determineVolumeChange_def)
  have staged: "determineVolumeChange (chapterVolume c) (Some v)
                     = (if chapterVolume c \<noteq> (if v = [] then None else Some v)
                              then Some (if v = [] then None else Some v) else None)" for v
    by (simp add: determineVolumeChange_def)
  consider (guard) "\<not> (?names \<noteq> [] \<or> ?ng)"
    | (none) "?names \<noteq> [] \<or> ?ng" "lookupChapterRelease dat c seriesId ?names (useFallbackMatching opts) = None"
    | (found) cr where "?names \<noteq> [] \<or> ?ng"
        "lookupChapterRelease dat c seriesId ?names (useFallbackMatching opts) = Some cr"
    by (cases "lookupChapterRelease dat c seriesId ?names (useFallbackMatching opts)") auto
  then show ?thesis
  proof cases
    case guard
    then have "r = failedResult NO_GROUPS ''Unable to assign any of the required groups to the chapter''
               \<or> r = failedResult NO_VALID_GROUPS ''No valid groups found for assigned group IDs''"
      unfolding r by (auto simp: applyChangesToChapter_def Let_def)
    then have "\<not> ?vm" by (auto simp: failedResult_def)
    moreover have "?fm = None" using guard unfolding fm by simp
    ultimately show ?thesis by simp
  next
    case none
    have g: "groupIds c \<noteq> [] \<or> ?ng" using none(1) map_filter_Nil_groups[of c] by blast
    have "r = failedResult NO_CHAPTER_INFO ''Chapter not found in chapter dump''"
      unfolding r using none g by (auto simp: applyChangesToChapter_def Let_def)
    then have "\<not> ?vm" by (auto simp: failedResult_def)
    moreover have "?fm = None"
      using none(2) unfolding fm lookupChapterRelease_eq
      by (auto split: option.splits if_splits)
    ultimately show ?thesis by simp
  next
    case found
    have g: "groupIds c \<noteq> [] \<or> ?ng" using found(1) map_filter_Nil_groups[of c] by blast
    let ?calc = "calculateChangesFromRelease dat c cr scan seriesId ?names ?ng"
    let ?res = "resolutionResultOf (snd ?calc)"
    note fnd = applyChangesToChapter_found[OF found(2) g found(1)]
    have w: "warnings r = volumeMismatchWarnings (chapterVolume c) ?res @ partialGroupMatchWarnings ?res"
      unfolding r fnd by (simp add: Let_def)
    have ch: "map_option volume (changes r) = Some (determineVolumeChange (chapterVolume c) (rel_volume cr))"
      unfolding r fnd by (simp add: Let_def calculateChanges_fields)
    have uf: "res_usedFallback ?res = rel_usedFallback cr"
      and fv: "res_fallbackVolume ?res = (if rel_usedFallback cr then rel_volume cr else None)"
      by (simp_all add: resolutionResultOf_def calculateChanges_fields)
    show ?thesis
    proof (cases ?exact)
      case (Some rel)
      then have "\<not> rel_usedFallback cr" using found(2) unfolding lookupChapterRelease_eq by auto
      then have "\<not> ?vm"
        using w uf partialGroupMatchWarnings_reason[of ?res] by (auto simp: volumeMismatchWarnings_def)
      moreover have "?fm = None" using Some unfolding fm by simp
      ultimately show ?thesis by simp
    next
      case None
      with found(2) obtain v info where
        fb: "?fb = Some (v, info)" and on: "useFallbackMatching opts" "truthy (chapterNumber c)"
        and cr: "rel_usedFallback cr" "rel_volume cr = Some v"
        unfolding lookupChapterRelease_eq by (auto split: option.splits if_splits)
      have fmv: "?fm = Some (v, info)" unfolding fm using found(1) None on fb by simp
      have vw: "volumeMismatchWarnings (chapterVolume c) ?res
                  = [\<lparr>reason = VOLUME_MISMATCH,
                          noteText = ''Changed volume from ''
                            @ (case chapterVolume c of None \<Rightarrow> ''N/A'' | Some v \<Rightarrow> v)
                            @ '' to '' @ (if v = [] then ''N/A'' else v)\<rparr>]"
        using cr uf fv by (simp add: volumeMismatchWarnings_def Let_def)
      have vm: "?vm" unfolding w vw by simp
      have flt: "filter (\<lambda>w. reason w = VOLUME_MISMATCH) (warnings r)
                      = [\<lparr>reason = VOLUME_MISMATCH,
                          noteText = ''Changed volume from ''
                            @ (case chapterVolume c of None \<Rightarrow> ''N/A'' | Some v \<Rightarrow> v)
                            @ '' to '' @ (if v = [] then ''N/A'' else v)\<rparr>]"
        unfolding w vw by simp
      have st: "map_option volume (changes r)
                      = Some (if chapterVolume c \<noteq> (if v = [] then None else Some v)
                              then Some (if v = [] then None else Some v) else None)"
        unfolding ch cr staged ..
      have diff: "v \<noteq> orEmpty (chapterVolume c)"
        if "\<forall>sm. map_of dat seriesId = Some sm \<longrightarrow> wellKeyed sm"
      proof -
        from fb obtain sm where sm: "map_of dat seriesId = Some sm"
          by (auto simp: getChapterInfoByChapterAndGroups_def split: option.splits)
        with that have "wellKeyed sm" by blast
        from fallback_volume_differs[OF this sm None fb] show ?thesis .
      qed
      have st': "map_option volume (changes r) = Some (Some (if v = [] then None else Some v))"
        if "\<forall>sm. map_of dat seriesId = Some sm \<longrightarrow> wellKeyed sm"
        unfolding ch cr using staged'[OF diff[OF that]] by simp
      show ?thesis
        unfolding fmv using vm flt st diff st' by simp
    qed
  qed
qed

theorem volume_mismatch_iff_fallback_witness:
  "map_option volume (changes (results (applyChangesFromDump
         [(''S1'', seriesMapOf
            [\<lparr>ci_volume = ''1'', ci_chapter = ''5'', ci_title = ''Hello'',
              ci_groups = [\<lparr>primaryName = ''Foo'', altNames = []\<rparr>], ci_language = ''en''\<rparr>])]
         [\<lparr>chapterVolume = Some ''2'', chapterNumber = Some ''5'', originalFolderPath = None,
           groupIds = [''g1''], currentTitle = None, language = ''en''\<rparr>]
         [\<lparr>groupId = ''g1'', groupName = ''Foo''\<rparr>] ''S1''
         \<lparr>useFallbackMatching = True, isNoGroupChapter = neverNoGroup\<rparr>) ! 0))
   = Some (Some (Some ''1''))
   \<and> map reason (warnings (results (applyChangesFromDump
         [(''S1'', seriesMapOf
            [\<lparr>ci_volume = ''1'', ci_chapter = ''5'', ci_title = ''Hello'',
              ci_groups = [\<lparr>primaryName = ''Foo'', altNames = []\<rparr>], ci_language = ''en''\<rparr>])]
         [\<lparr>chapterVolume = Some ''2'', chapterNumber = Some ''5'', originalFolderPath = None,
           groupIds = [''g1''], currentTitle = None, language = ''en''\<rparr>]
         [\<lparr>groupId = ''g1'', groupName = ''Foo''\<rparr>] ''S1''
         \<lparr>useFallbackMatching = True, isNoGroupChapter = neverNoGroup\<rparr>) ! 0))
   = [VOLUME_MISMATCH]"
proof -
  let ?dat = "[(''S1'', seriesMapOf
            [\<lparr>ci_volume = ''1'', ci_chapter = ''5'', ci_title = ''Hello'',
              ci_groups = [\<lparr>primaryName = ''Foo'', altNames = []\<rparr>], ci_language = ''en''\<rparr>])]"
  let ?c = "\<lparr>chapterVolume = Some ''2'', chapterNumber = Some ''5'', originalFolderPath = None,
           groupIds = [''g1''], currentTitle = None, language = ''en''\<rparr>"
  let ?scan = "[\<lparr>groupId = ''g1'', groupName = ''Foo''\<rparr>]"
  let ?opts = "\<lparr>useFallbackMatching = True, isNoGroupChapter = neverNoGroup\<rparr>"
  let ?r = "results (applyChangesFromDump ?dat [?c] ?scan ''S1'' ?opts) ! 0"
  have h1: "0 < length [?c]" by simp
  have fm: "fallbackMatch_spec ?dat ?scan ''S1'' ?opts ([?c] ! 0)
     = Some (''1'', \<lparr>groups = [\<lparr>primaryName = ''Foo'', altNames = []\<rparr>],
               groupTitles = [(''Foo'', Some ''Hello'')],
               ungroupedTitles = []\<rparr>)"
    by code_simp
  have wk: "\<forall>sm. map_of ?dat ''S1'' = Some sm \<longrightarrow> wellKeyed sm"
    by (simp add: wellKeyed_def seriesMapOf_def addChapterInfo_def keyOf_def)
  note t = volume_mismatch_iff_fallback[OF h1 refl refl, of ?dat ?scan "''S1''" ?opts]
  from t fm wk have one: "map_option volume (changes ?r) = Some (Some (Some ''1''))" by simp
  from t fm have "filter (\<lambda>w. reason w = VOLUME_MISMATCH) (warnings ?r)
       = [\<lparr>reason = VOLUME_MISMATCH, noteText = ''Changed volume from 2 to 1''\<rparr>]" by simp
  moreover have "list_all (\<lambda>w. reason w = VOLUME_MISMATCH) (warnings ?r)" by code_simp
  ultimately have two: "map reason (warnings ?r) = [VOLUME_MISMATCH]"
    by (simp add: list_all_iff filter_id_conv[THEN iffD2])
  from one two show ?thesis by simp
qed

text \<open>
  Claim C3 at a dump whose only row has chapter \<^verbatim>\<open>2|x\<close> of volume \<^verbatim>\<open>1\<close>, for the local
  chapter \<^verbatim>\<open>2\<close> of volume \<^verbatim>\<open>1\<close>. The row is stored under the key \<^verbatim>\<open>1|2|x\<close>. The exact
  lookup at the key \<^verbatim>\<open>1|2\<close> finds nothing. The fallback splits the key \<^verbatim>\<open>1|2|x\<close> at
  every \<^verbatim>\<open>|\<close> and keeps the first two parts, takes \<^verbatim>\<open>2\<close> for the chapter number of the row
  and returns the row with volume \<^verbatim>\<open>1\<close>, although the dump has no chapter \<^verbatim>\<open>2\<close>. The
  warning is emitted with the note \<^verbatim>\<open>Changed volume from 1 to 1\<close>: the implied volume is
  the chapter's own, and no volume is staged.
\<close>

theorem volume_mismatch_same_volume:
  "map fst (seriesMapOf
            [\<lparr>ci_volume = ''1'', ci_chapter = ''2|x'', ci_title = ''Hello'',
              ci_groups = [\<lparr>primaryName = ''Foo'', altNames = []\<rparr>], ci_language = ''en''\<rparr>])
     = [''1|2|x'']
   \<and> getChapterInfoByChapterAndGroups
         [(''S1'', seriesMapOf
            [\<lparr>ci_volume = ''1'', ci_chapter = ''2|x'', ci_title = ''Hello'',
              ci_groups = [\<lparr>primaryName = ''Foo'', altNames = []\<rparr>], ci_language = ''en''\<rparr>])]
         ''S1'' (Some ''2'') [''Foo''] ''en''
     = Some (''1'', \<lparr>groups = [\<lparr>primaryName = ''Foo'', altNames = []\<rparr>],
                     groupTitles = [(''Foo'', Some ''Hello'')], ungroupedTitles = []\<rparr>)
   \<and> results (applyChangesFromDump
         [(''S1'', seriesMapOf
            [\<lparr>ci_volume = ''1'', ci_chapter = ''2|x'', ci_title = ''Hello'',
              ci_groups = [\<lparr>primaryName = ''Foo'', altNames = []\<rparr>], ci_language = ''en''\<rparr>])]
         [\<lparr>chapterVolume = Some ''1'', chapterNumber = Some ''2'', originalFolderPath = None,
           groupIds = [''g1''], currentTitle = None, language = ''en''\<rparr>]
         [\<lparr>groupId = ''g1'', groupName = ''Foo''\<rparr>] ''S1''
         \<lparr>useFallbackMatching = True, isNoGroupChapter = neverNoGroup\<rparr>)
   = [\<lparr>status = SUCCESS,
       changes = Some \<lparr>volume = None, title = Some (Some ''Hello''), additionalGroupIds = []\<rparr>,
       warnings = [\<lparr>reason = VOLUME_MISMATCH, noteText = ''Changed volume from 1 to 1''\<rparr>],
       resolutionResult =
         Some \<lparr>res_title = Some ''Hello'', res_matchedGroupName = Some ''Foo'',
               res_usedFallback = True, res_fallbackVolume = Some ''1'',
               res_chapterInfo = \<lparr>groups = [\<lparr>primaryName = ''Foo'', altNames = []\<rparr>],
                                  groupTitles = [(''Foo'', Some ''Hello'')],
                                  ungroupedTitles = []\<rparr>\<rparr>\<rparr>]"
  by code_simp

















lemma volumeMismatchWarnings_reason:
  "\<forall>w \<in> set (volumeMismatchWarnings v res). reason w = VOLUME_MISMATCH"
  by (simp add: volumeMismatchWarnings_def Let_def)













section \<open>The upload run\<close>

lemma networkFailure_not_403: "isNetworkFailure out \<Longrightarrow> \<not> is403Outcome out"
  by (cases out) auto

lemma networkFailure_not_completed: "isNetworkFailure out \<Longrightarrow> \<not> isCompletedOutcome out"
  by (cases out) auto

lemma completed_not_403: "isCompletedOutcome out \<Longrightarrow> \<not> is403Outcome out"
  by (cases out) auto

lemma retry_spec:
  "\<exists>new. new \<noteq> []
     \<and> uploads (snd (snd (uploadChapterWithRetry upload j chap lg attempt)))
         = uploads lg @ map (\<lambda>(i, out). (j, i, out)) new
     \<and> sleeps (snd (snd (uploadChapterWithRetry upload j chap lg attempt)))
         = sleeps lg @ map (\<lambda>a. (j, retryDelay a)) [attempt..<attempt + (length new - 1)]
     \<and> fst (hd new) = chap
     \<and> (\<forall>k. Suc k < length new \<longrightarrow>
            isNetworkFailure (snd (new ! k)) \<and> fst (new ! Suc k) = nextInput (snd (new ! k)))
     \<and> fst (snd (uploadChapterWithRetry upload j chap lg attempt)) = stateAfter (snd (last new))
     \<and> fst (uploadChapterWithRetry upload j chap lg attempt)
         = (isCompletedOutcome (snd (last new)), is403Outcome (snd (last new)))
     \<and> (isNetworkFailure (snd (last new)) \<longrightarrow> MAX_RETRIES < attempt + (length new - 1))
     \<and> attempt + (length new - 1) \<le> max attempt (Suc MAX_RETRIES)"
proof (induction upload j chap lg attempt rule: uploadChapterWithRetry.induct)
  case (1 upload j chap lg attempt)
  let ?out = "upload (calls lg) chap"
  let ?lg1 = "logCall lg j chap ?out"
  let ?retry = "isNetworkFailure ?out \<and> attempt \<le> MAX_RETRIES"
  show ?case
  proof (cases ?retry)
    case False
    have res: "uploadChapterWithRetry upload j chap lg attempt
               = ((isCompletedOutcome ?out, is403Outcome ?out), stateAfter ?out, ?lg1)"
      using False by (subst uploadChapterWithRetry.simps) (cases ?out; auto)
    show ?thesis
      unfolding res using False
      by (intro exI[of _ "[(chap, ?out)]"]) (auto simp: logCall_def)
  next
    case True
    let ?lg2 = "logSleep ?lg1 j (retryDelay attempt)"
    let ?rec = "uploadChapterWithRetry upload j (nextInput ?out) ?lg2 (attempt + 1)"
    have res: "uploadChapterWithRetry upload j chap lg attempt = ?rec"
      using True by (subst uploadChapterWithRetry.simps) (cases ?out; auto)
    have "\<exists>new. new \<noteq> []
     \<and> uploads (snd (snd ?rec)) = uploads ?lg2 @ map (\<lambda>(i, out). (j, i, out)) new
     \<and> sleeps (snd (snd ?rec))
         = sleeps ?lg2 @ map (\<lambda>a. (j, retryDelay a)) [attempt + 1..<attempt + 1 + (length new - 1)]
     \<and> fst (hd new) = nextInput ?out
     \<and> (\<forall>k. Suc k < length new \<longrightarrow>
            isNetworkFailure (snd (new ! k)) \<and> fst (new ! Suc k) = nextInput (snd (new ! k)))
     \<and> fst (snd ?rec) = stateAfter (snd (last new))
     \<and> fst ?rec = (isCompletedOutcome (snd (last new)), is403Outcome (snd (last new)))
     \<and> (isNetworkFailure (snd (last new)) \<longrightarrow> MAX_RETRIES < attempt + 1 + (length new - 1))
     \<and> attempt + 1 + (length new - 1) \<le> max (attempt + 1) (Suc MAX_RETRIES)"
    proof (cases ?out)
      case (Resolved chap1)
      with True have c: "chapterStatus chap1 \<noteq> CH_COMPLETED" "\<not> has403Error chap1"
        "hasNetworkError chap1 \<and> attempt \<le> MAX_RETRIES" by auto
      from "1.IH"(1)[OF Resolved c] Resolved show ?thesis by simp
    next
      case (Rejected e chap1)
      with True have c: "\<not> is403Error e" "isNetworkError e \<and> attempt \<le> MAX_RETRIES" by auto
      from "1.IH"(2)[OF Rejected c] Rejected show ?thesis by simp
    qed
    then obtain new where new: "new \<noteq> []"
      and up: "uploads (snd (snd ?rec)) = uploads ?lg2 @ map (\<lambda>(i, out). (j, i, out)) new"
      and sl: "sleeps (snd (snd ?rec))
         = sleeps ?lg2 @ map (\<lambda>a. (j, retryDelay a)) [attempt + 1..<attempt + 1 + (length new - 1)]"
      and hd: "fst (hd new) = nextInput ?out"
      and chain: "\<forall>k. Suc k < length new \<longrightarrow>
            isNetworkFailure (snd (new ! k)) \<and> fst (new ! Suc k) = nextInput (snd (new ! k))"
      and st: "fst (snd ?rec) = stateAfter (snd (last new))"
      and cl: "fst ?rec = (isCompletedOutcome (snd (last new)), is403Outcome (snd (last new)))"
      and ex: "isNetworkFailure (snd (last new)) \<longrightarrow> MAX_RETRIES < attempt + 1 + (length new - 1)"
      and bd: "attempt + 1 + (length new - 1) \<le> max (attempt + 1) (Suc MAX_RETRIES)"
      by blast
    let ?new = "(chap, ?out) # new"
    have len: "length ?new - 1 = Suc (length new - 1)" using new by (cases new) auto
    have "[attempt..<attempt + (length ?new - 1)]
            = attempt # [attempt + 1..<attempt + 1 + (length new - 1)]"
      unfolding len by (simp add: upt_conv_Cons)
    then have sl': "sleeps (snd (snd ?rec))
         = sleeps lg @ map (\<lambda>a. (j, retryDelay a)) [attempt..<attempt + (length ?new - 1)]"
      using sl by (simp add: logSleep_def logCall_def)
    have up': "uploads (snd (snd ?rec)) = uploads lg @ map (\<lambda>(i, out). (j, i, out)) ?new"
      using up by (simp add: logSleep_def logCall_def)
    have chain': "\<forall>k. Suc k < length ?new \<longrightarrow>
            isNetworkFailure (snd (?new ! k)) \<and> fst (?new ! Suc k) = nextInput (snd (?new ! k))"
    proof (intro allI impI)
      fix k assume k: "Suc k < length ?new"
      show "isNetworkFailure (snd (?new ! k)) \<and> fst (?new ! Suc k) = nextInput (snd (?new ! k))"
      proof (cases k)
        case 0
        with True hd new show ?thesis by (cases new) auto
      next
        case (Suc k')
        with k chain show ?thesis by simp
      qed
    qed
    have last: "last ?new = last new" using new by simp
    have bd': "attempt + (length ?new - 1) \<le> max attempt (Suc MAX_RETRIES)"
      using bd True unfolding len by simp
    have ex': "isNetworkFailure (snd (last ?new)) \<longrightarrow> MAX_RETRIES < attempt + (length ?new - 1)"
      using ex unfolding len last by simp
    show ?thesis
      unfolding res
      apply (rule exI[of _ ?new])
      using up' sl' chain' st cl ex' bd' unfolding last
      by simp
  qed
qed

text \<open>
  \<^verbatim>\<open>uploadAll\<close> keeps its chapters in an array of objects that \<^verbatim>\<open>chapter.upload\<close> and the
  retry code mutate in place; here the state that a call leaves is written back at the
  position of the chapter, which is the same as long as no object occurs twice in the
  array.
\<close>

lemma checkProgress_fields [simp]:
  "up_chapters (checkProgress u) = up_chapters u"
  "up_status (checkProgress u) = up_status u"
  by (simp_all add: checkProgress_def Let_def)

lemma uploadLoop_skip:
  assumes "chapterStatus (up_chapters u ! j) = CH_COMPLETED"
  shows "uploadLoop upload (j # rest) k u lg
         = uploadLoop upload rest (k + 1) (checkProgress (u\<lparr>currentChapterIndex := k\<rparr>)) lg"
  using assms by (simp add: Let_def)

lemma uploadLoop_next:
  assumes "chapterStatus (up_chapters u ! j) \<noteq> CH_COMPLETED"
    and "uploadChapterWithRetry upload j (up_chapters u ! j) lg 1 = ((True, False), chap', lg')"
  shows "uploadLoop upload (j # rest) k u lg
         = uploadLoop upload rest (k + 1)
             (checkProgress (u\<lparr>currentChapterIndex := k, up_chapters := (up_chapters u)[j := chap']\<rparr>)) lg'"
  using assms by (simp add: Let_def)

lemma uploadLoop_stop:
  assumes "chapterStatus (up_chapters u ! j) \<noteq> CH_COMPLETED"
    and "uploadChapterWithRetry upload j (up_chapters u ! j) lg 1 = ((succ, True), chap', lg')"
  shows "up_status (fst (uploadLoop upload (j # rest) k u lg)) = UP_STOPPED"
    and "up_chapters (fst (uploadLoop upload (j # rest) k u lg)) = (up_chapters u)[j := chap']"
    and "snd (uploadLoop upload (j # rest) k u lg) = lg'"
  using assms by (simp_all add: Let_def stopRun_def)

lemma uploadLoop_fail:
  assumes "chapterStatus (up_chapters u ! j) \<noteq> CH_COMPLETED"
    and "uploadChapterWithRetry upload j (up_chapters u ! j) lg 1 = ((False, False), chap', lg')"
  shows "up_status (fst (uploadLoop upload (j # rest) k u lg))
         = (if hasNetworkError chap' then UP_PAUSED else UP_FAILED)"
    and "up_chapters (fst (uploadLoop upload (j # rest) k u lg)) = (up_chapters u)[j := chap']"
    and "snd (uploadLoop upload (j # rest) k u lg) = lg'"
  using assms by (simp_all add: Let_def stopRun_def)


lemma entriesOf_append: "entriesOf j (xs @ ys) = entriesOf j xs @ entriesOf j ys"
  by (simp add: entriesOf_def)

lemma entriesOf_absent: "j \<notin> fst ` set xs \<Longrightarrow> entriesOf j xs = []"
  by (induction xs) (auto simp: entriesOf_def)

lemma entriesOf_tagged: "entriesOf j (map (\<lambda>(i, out). (j, i, out)) new) = new"
  by (induction new) (auto simp: entriesOf_def)

lemma entriesOf_tagged': "entriesOf j (map (\<lambda>a. (j, f a)) as) = map f as"
  by (induction as) (auto simp: entriesOf_def)

lemma fst_tagged: "fst ` set (map (\<lambda>(i, out). (j, i, out)) new) \<subseteq> {j}"
  by auto

lemma fst_tagged': "fst ` set (map (\<lambda>a. (j, f a)) as) \<subseteq> {j}"
  by auto

lemma retryDelays: "map retryDelay [1..<4] = [2000, 5000, 10000]"
proof -
  have "[1..<4] = [1, 2, 3::nat]" by (simp add: upt_rec)
  then show ?thesis by (simp add: retryDelay_def)
qed

lemma all_but_last_network:
  assumes "new \<noteq> []"
    and "\<forall>k. Suc k < length new \<longrightarrow> isNetworkFailure (snd (new ! k)) \<and> Q k"
    and "x \<in> set new" and "\<not> isNetworkFailure (snd x)"
  shows "x = last new"
proof -
  from assms(3) obtain k where k: "k < length new" "new ! k = x" by (auto simp: in_set_conv_nth)
  have "\<not> Suc k < length new" using assms(2,4) k by auto
  with k have "k = length new - 1" by simp
  with k assms(1) show ?thesis by (simp add: last_conv_nth)
qed


lemma uploadLoop_spec:
  assumes "distinct idxs" and "\<forall>j\<in>set idxs. j < length (up_chapters u)"
  shows "\<exists>new newS.
      uploads (snd (uploadLoop upload idxs k u lg)) = uploads lg @ new
    \<and> sleeps (snd (uploadLoop upload idxs k u lg)) = sleeps lg @ newS
    \<and> fst ` set new \<subseteq> set idxs
    \<and> fst ` set newS \<subseteq> set idxs
    \<and> length (up_chapters (fst (uploadLoop upload idxs k u lg))) = length (up_chapters u)
    \<and> (\<forall>i. i \<notin> fst ` set new \<longrightarrow>
          up_chapters (fst (uploadLoop upload idxs k u lg)) ! i = up_chapters u ! i)
    \<and> (\<forall>i<length (up_chapters u). chapterStatus (up_chapters u ! i) = CH_COMPLETED \<longrightarrow>
          chapterStatus (up_chapters (fst (uploadLoop upload idxs k u lg)) ! i) = CH_COMPLETED)
    \<and> (\<forall>e\<in>set new. isCompletedOutcome (snd (snd e)) \<longrightarrow>
          chapterStatus (up_chapters (fst (uploadLoop upload idxs k u lg)) ! fst e) = CH_COMPLETED)
    \<and> ((\<exists>e\<in>set new. is403Outcome (snd (snd e))) \<longrightarrow>
          up_status (fst (uploadLoop upload idxs k u lg)) = UP_STOPPED)
    \<and> (\<forall>j. entriesOf j new \<noteq> [] \<and> (\<forall>e\<in>set (entriesOf j new). isNetworkFailure (snd e)) \<longrightarrow>
          length (entriesOf j new) = 4
        \<and> entriesOf j newS = [2000, 5000, 10000]
        \<and> fst (hd (entriesOf j new)) = up_chapters u ! j
        \<and> (\<forall>n. Suc n < length (entriesOf j new) \<longrightarrow>
              fst (entriesOf j new ! Suc n) = nextInput (snd (entriesOf j new ! n)))
        \<and> up_chapters (fst (uploadLoop upload idxs k u lg)) ! j
            = stateAfter (snd (last (entriesOf j new)))
        \<and> up_status (fst (uploadLoop upload idxs k u lg))
            = (if hasNetworkError (stateAfter (snd (last (entriesOf j new))))
               then UP_PAUSED else UP_FAILED))"
  using assms
proof (induction idxs arbitrary: k u lg)
  case Nil
  show ?case by (simp add: entriesOf_def)
next
  case (Cons j rest)
  let ?R = "uploadLoop upload (j # rest) k u lg"
  from Cons.prems have dist: "distinct rest" and jrest: "j \<notin> set rest"
    and jlen: "j < length (up_chapters u)"
    and restlen: "\<forall>i\<in>set rest. i < length (up_chapters u)" by auto
  show ?case
  proof (cases "chapterStatus (up_chapters u ! j) = CH_COMPLETED")
    case True
    let ?u1 = "checkProgress (u\<lparr>currentChapterIndex := k\<rparr>)"
    have eq: "?R = uploadLoop upload rest (k + 1) ?u1 lg"
      by (rule uploadLoop_skip[OF True])
    have uc: "up_chapters ?u1 = up_chapters u" by simp
    have "\<forall>i\<in>set rest. i < length (up_chapters ?u1)" using restlen by simp
    from Cons.IH[OF dist this, of "k + 1" lg]
    obtain new newS where
      h: "uploads (snd ?R) = uploads lg @ new"
         "sleeps (snd ?R) = sleeps lg @ newS"
         "fst ` set new \<subseteq> set rest"
         "fst ` set newS \<subseteq> set rest"
         "length (up_chapters (fst ?R)) = length (up_chapters u)"
         "\<forall>i. i \<notin> fst ` set new \<longrightarrow> up_chapters (fst ?R) ! i = up_chapters u ! i"
         "\<forall>i<length (up_chapters u). chapterStatus (up_chapters u ! i) = CH_COMPLETED \<longrightarrow>
              chapterStatus (up_chapters (fst ?R) ! i) = CH_COMPLETED"
         "\<forall>e\<in>set new. isCompletedOutcome (snd (snd e)) \<longrightarrow>
              chapterStatus (up_chapters (fst ?R) ! fst e) = CH_COMPLETED"
         "(\<exists>e\<in>set new. is403Outcome (snd (snd e))) \<longrightarrow> up_status (fst ?R) = UP_STOPPED"
         "\<forall>j. entriesOf j new \<noteq> [] \<and> (\<forall>e\<in>set (entriesOf j new). isNetworkFailure (snd e)) \<longrightarrow>
          length (entriesOf j new) = 4
        \<and> entriesOf j newS = [2000, 5000, 10000]
        \<and> fst (hd (entriesOf j new)) = up_chapters u ! j
        \<and> (\<forall>n. Suc n < length (entriesOf j new) \<longrightarrow>
              fst (entriesOf j new ! Suc n) = nextInput (snd (entriesOf j new ! n)))
        \<and> up_chapters (fst ?R) ! j = stateAfter (snd (last (entriesOf j new)))
        \<and> up_status (fst ?R)
            = (if hasNetworkError (stateAfter (snd (last (entriesOf j new))))
               then UP_PAUSED else UP_FAILED)"
      unfolding eq[symmetric] uc by blast
    have s1: "fst ` set new \<subseteq> set (j # rest)" using h(3) by auto
    have s2: "fst ` set newS \<subseteq> set (j # rest)" using h(4) by auto
    show ?thesis
      apply (rule exI[of _ new], rule exI[of _ newS])
      using h(1,2) s1 s2 h(5-10) by (intro conjI) assumption+
  next
    case False
    let ?chap = "up_chapters u ! j"
    let ?call = "uploadChapterWithRetry upload j ?chap lg 1"
    from retry_spec[of upload j ?chap lg 1]
    obtain new where new: "new \<noteq> []"
      and up: "uploads (snd (snd ?call)) = uploads lg @ map (\<lambda>(i, out). (j, i, out)) new"
      and sl: "sleeps (snd (snd ?call))
                = sleeps lg @ map (\<lambda>a. (j, retryDelay a)) [1..<1 + (length new - 1)]"
      and hd: "fst (hd new) = ?chap"
      and chain: "\<forall>n. Suc n < length new \<longrightarrow>
            isNetworkFailure (snd (new ! n)) \<and> fst (new ! Suc n) = nextInput (snd (new ! n))"
      and st: "fst (snd ?call) = stateAfter (snd (last new))"
      and cl: "fst ?call = (isCompletedOutcome (snd (last new)), is403Outcome (snd (last new)))"
      and ex: "isNetworkFailure (snd (last new)) \<longrightarrow> MAX_RETRIES < 1 + (length new - 1)"
      and bd: "1 + (length new - 1) \<le> max 1 (Suc MAX_RETRIES)"
      by blast
    let ?tag = "map (\<lambda>(i, out). (j, i, out)) new"
    let ?tagS = "map (\<lambda>a. (j, retryDelay a)) [1..<1 + (length new - 1)]"
    let ?chap' = "stateAfter (snd (last new))"
    let ?lg' = "snd (snd ?call)"
    have lastin: "last new \<in> set new" using new by simp
    have only_last: "\<And>x. x \<in> set new \<Longrightarrow> \<not> isNetworkFailure (snd x) \<Longrightarrow> x = last new"
      using all_but_last_network[OF new chain] by blast
    have call: "?call = ((isCompletedOutcome (snd (last new)), is403Outcome (snd (last new))),
                         ?chap', ?lg')"
      using st cl by (metis prod.collapse)
    have tagset: "\<And>e. e \<in> set ?tag \<Longrightarrow> fst e = j \<and> snd e \<in> set new" by auto
    have eo_j: "entriesOf j ?tag = new" by (rule entriesOf_tagged)
    have eo_other: "\<And>i. i \<noteq> j \<Longrightarrow> entriesOf i ?tag = []"
      by (rule entriesOf_absent) auto
    have eoS_j: "entriesOf j ?tagS = map retryDelay [1..<1 + (length new - 1)]"
      by (rule entriesOf_tagged')
    have net4: "length new = 4" if "isNetworkFailure (snd (last new))"
      using ex bd that by (simp add: MAX_RETRIES_def)
    show ?thesis
    proof (cases "isCompletedOutcome (snd (last new))")
      case True
      then have no403: "\<not> is403Outcome (snd (last new))" by (rule completed_not_403)
      have nonet: "\<not> isNetworkFailure (snd (last new))"
        using True networkFailure_not_completed by blast
      have fin: "chapterStatus ?chap' = CH_COMPLETED"
        using True by (cases "snd (last new)") auto
      let ?u2 = "checkProgress (u\<lparr>currentChapterIndex := k,
                     up_chapters := (up_chapters u)[j := ?chap']\<rparr>)"
      have eq: "?R = uploadLoop upload rest (k + 1) ?u2 ?lg'"
        using uploadLoop_next[OF False, of upload lg ?chap' ?lg' rest k] call True no403 by simp
      have ch2: "up_chapters ?u2 = (up_chapters u)[j := ?chap']" by simp
      have "\<forall>i\<in>set rest. i < length (up_chapters ?u2)" using restlen by simp
      from Cons.IH[OF dist this, of "k + 1" ?lg']
      obtain newr newSr where
        h: "uploads (snd ?R) = uploads ?lg' @ newr"
         "sleeps (snd ?R) = sleeps ?lg' @ newSr"
         "fst ` set newr \<subseteq> set rest"
         "fst ` set newSr \<subseteq> set rest"
         "length (up_chapters (fst ?R)) = length (up_chapters ?u2)"
         "\<forall>i. i \<notin> fst ` set newr \<longrightarrow> up_chapters (fst ?R) ! i = up_chapters ?u2 ! i"
         "\<forall>i<length (up_chapters ?u2). chapterStatus (up_chapters ?u2 ! i) = CH_COMPLETED \<longrightarrow>
              chapterStatus (up_chapters (fst ?R) ! i) = CH_COMPLETED"
         "\<forall>e\<in>set newr. isCompletedOutcome (snd (snd e)) \<longrightarrow>
              chapterStatus (up_chapters (fst ?R) ! fst e) = CH_COMPLETED"
         "(\<exists>e\<in>set newr. is403Outcome (snd (snd e))) \<longrightarrow> up_status (fst ?R) = UP_STOPPED"
         "\<forall>j. entriesOf j newr \<noteq> [] \<and> (\<forall>e\<in>set (entriesOf j newr). isNetworkFailure (snd e)) \<longrightarrow>
          length (entriesOf j newr) = 4
        \<and> entriesOf j newSr = [2000, 5000, 10000]
        \<and> fst (hd (entriesOf j newr)) = up_chapters ?u2 ! j
        \<and> (\<forall>n. Suc n < length (entriesOf j newr) \<longrightarrow>
              fst (entriesOf j newr ! Suc n) = nextInput (snd (entriesOf j newr ! n)))
        \<and> up_chapters (fst ?R) ! j = stateAfter (snd (last (entriesOf j newr)))
        \<and> up_status (fst ?R)
            = (if hasNetworkError (stateAfter (snd (last (entriesOf j newr))))
               then UP_PAUSED else UP_FAILED)"
        unfolding eq[symmetric] by blast
      have jr: "j \<notin> fst ` set newr" using h(3) jrest by auto
      have jrS: "j \<notin> fst ` set newSr" using h(4) jrest by auto
      have Rj: "up_chapters (fst ?R) ! j = ?chap'" using h(6) jr jlen by (simp add: ch2)
      have c1: "uploads (snd ?R) = uploads lg @ (?tag @ newr)" using h(1) up by simp
      have c2: "sleeps (snd ?R) = sleeps lg @ (?tagS @ newSr)" using h(2) sl by simp
      have c3: "fst ` set (?tag @ newr) \<subseteq> set (j # rest)" using h(3) by auto
      have c4: "fst ` set (?tagS @ newSr) \<subseteq> set (j # rest)" using h(4) by auto
      have c5: "length (up_chapters (fst ?R)) = length (up_chapters u)" using h(5) by simp
      have c6: "\<forall>i. i \<notin> fst ` set (?tag @ newr) \<longrightarrow> up_chapters (fst ?R) ! i = up_chapters u ! i"
      proof (intro allI impI)
        fix i assume i: "i \<notin> fst ` set (?tag @ newr)"
        then have "i \<notin> fst ` set newr" by auto
        moreover have "i \<noteq> j" using i new by (cases new) auto
        ultimately show "up_chapters (fst ?R) ! i = up_chapters u ! i"
          using h(6) by (simp add: ch2)
      qed
      have c7: "\<forall>i<length (up_chapters u). chapterStatus (up_chapters u ! i) = CH_COMPLETED \<longrightarrow>
              chapterStatus (up_chapters (fst ?R) ! i) = CH_COMPLETED"
      proof (intro allI impI)
        fix i assume i: "i < length (up_chapters u)"
          and c: "chapterStatus (up_chapters u ! i) = CH_COMPLETED"
        have "i \<noteq> j" using c False by auto
        then have "chapterStatus (up_chapters ?u2 ! i) = CH_COMPLETED" using c by (simp add: ch2)
        moreover have "i < length (up_chapters ?u2)" using i by simp
        ultimately show "chapterStatus (up_chapters (fst ?R) ! i) = CH_COMPLETED"
          using h(7) by blast
      qed
      have c8: "\<forall>e\<in>set (?tag @ newr). isCompletedOutcome (snd (snd e)) \<longrightarrow>
              chapterStatus (up_chapters (fst ?R) ! fst e) = CH_COMPLETED"
      proof (intro ballI impI)
        fix e assume e: "e \<in> set (?tag @ newr)" and c: "isCompletedOutcome (snd (snd e))"
        show "chapterStatus (up_chapters (fst ?R) ! fst e) = CH_COMPLETED"
        proof (cases "e \<in> set ?tag")
          case True
          then have "fst e = j" using tagset by blast
          then show ?thesis using Rj fin by simp
        next
          case False
          with e have "e \<in> set newr" by auto
          with h(8) c show ?thesis by blast
        qed
      qed
      have no403tag: "\<And>e. e \<in> set ?tag \<Longrightarrow> \<not> is403Outcome (snd (snd e))"
      proof -
        fix e assume e: "e \<in> set ?tag"
        then have m: "snd e \<in> set new" using tagset by blast
        show "\<not> is403Outcome (snd (snd e))"
        proof (cases "isNetworkFailure (snd (snd e))")
          case True then show ?thesis by (rule networkFailure_not_403)
        next
          case False
          from only_last[OF m False] no403 show ?thesis by simp
        qed
      qed
      have c9: "(\<exists>e\<in>set (?tag @ newr). is403Outcome (snd (snd e))) \<longrightarrow>
                  up_status (fst ?R) = UP_STOPPED"
        using h(9) no403tag by auto
      have c10: "\<forall>i. entriesOf i (?tag @ newr) \<noteq> []
             \<and> (\<forall>e\<in>set (entriesOf i (?tag @ newr)). isNetworkFailure (snd e)) \<longrightarrow>
          length (entriesOf i (?tag @ newr)) = 4
        \<and> entriesOf i (?tagS @ newSr) = [2000, 5000, 10000]
        \<and> fst (hd (entriesOf i (?tag @ newr))) = up_chapters u ! i
        \<and> (\<forall>n. Suc n < length (entriesOf i (?tag @ newr)) \<longrightarrow>
              fst (entriesOf i (?tag @ newr) ! Suc n) = nextInput (snd (entriesOf i (?tag @ newr) ! n)))
        \<and> up_chapters (fst ?R) ! i = stateAfter (snd (last (entriesOf i (?tag @ newr))))
        \<and> up_status (fst ?R)
            = (if hasNetworkError (stateAfter (snd (last (entriesOf i (?tag @ newr)))))
               then UP_PAUSED else UP_FAILED)"
      proof (intro allI impI)
        fix i
        assume a: "entriesOf i (?tag @ newr) \<noteq> []
             \<and> (\<forall>e\<in>set (entriesOf i (?tag @ newr)). isNetworkFailure (snd e))"
        have ij: "i \<noteq> j"
        proof
          assume "i = j"
          then have "entriesOf i (?tag @ newr) = new"
            using eo_j entriesOf_absent[OF jr] by (simp add: entriesOf_append)
          with a lastin nonet show False by auto
        qed
        have e1: "entriesOf i (?tag @ newr) = entriesOf i newr"
          using eo_other[OF ij] by (simp add: entriesOf_append)
        have e2: "entriesOf i (?tagS @ newSr) = entriesOf i newSr"
          using ij by (simp add: entriesOf_append entriesOf_absent image_iff)
        have e3: "up_chapters ?u2 ! i = up_chapters u ! i" using ij by (simp add: ch2)
        from a h(10) show "length (entriesOf i (?tag @ newr)) = 4
        \<and> entriesOf i (?tagS @ newSr) = [2000, 5000, 10000]
        \<and> fst (hd (entriesOf i (?tag @ newr))) = up_chapters u ! i
        \<and> (\<forall>n. Suc n < length (entriesOf i (?tag @ newr)) \<longrightarrow>
              fst (entriesOf i (?tag @ newr) ! Suc n) = nextInput (snd (entriesOf i (?tag @ newr) ! n)))
        \<and> up_chapters (fst ?R) ! i = stateAfter (snd (last (entriesOf i (?tag @ newr))))
        \<and> up_status (fst ?R)
            = (if hasNetworkError (stateAfter (snd (last (entriesOf i (?tag @ newr)))))
               then UP_PAUSED else UP_FAILED)"
          unfolding e1 e2 e3[symmetric] by blast
      qed
      show ?thesis
        apply (rule exI[of _ "?tag @ newr"], rule exI[of _ "?tagS @ newSr"])
        using c1 c2 c3 c4 c5 c6 c7 c8 c9 c10 by (intro conjI) assumption+
    next
      case notdone: False
      have R1: "up_chapters (fst ?R) = (up_chapters u)[j := ?chap']"
        and R2: "snd ?R = ?lg'"
        and R3: "up_status (fst ?R)
                 = (if is403Outcome (snd (last new)) then UP_STOPPED
                    else if hasNetworkError ?chap' then UP_PAUSED else UP_FAILED)"
      proof -
        show "up_chapters (fst ?R) = (up_chapters u)[j := ?chap']"
          using uploadLoop_stop(2)[OF False, of upload lg False ?chap' ?lg' rest k]
                uploadLoop_fail(2)[OF False, of upload lg ?chap' ?lg' rest k] call notdone
          by (cases "is403Outcome (snd (last new))") simp_all
        show "snd ?R = ?lg'"
          using uploadLoop_stop(3)[OF False, of upload lg False ?chap' ?lg' rest k]
                uploadLoop_fail(3)[OF False, of upload lg ?chap' ?lg' rest k] call notdone
          by (cases "is403Outcome (snd (last new))") simp_all
        show "up_status (fst ?R)
                 = (if is403Outcome (snd (last new)) then UP_STOPPED
                    else if hasNetworkError ?chap' then UP_PAUSED else UP_FAILED)"
          using uploadLoop_stop(1)[OF False, of upload lg False ?chap' ?lg' rest k]
                uploadLoop_fail(1)[OF False, of upload lg ?chap' ?lg' rest k] call notdone
          by (cases "is403Outcome (snd (last new))") simp_all
      qed
      have Rj: "up_chapters (fst ?R) ! j = ?chap'" using R1 jlen by simp
      have c1: "uploads (snd ?R) = uploads lg @ ?tag" using R2 up by simp
      have c2: "sleeps (snd ?R) = sleeps lg @ ?tagS" using R2 sl by simp
      have c3: "fst ` set ?tag \<subseteq> set (j # rest)" by auto
      have c4: "fst ` set ?tagS \<subseteq> set (j # rest)" by auto
      have c5: "length (up_chapters (fst ?R)) = length (up_chapters u)" using R1 by simp
      have c6: "\<forall>i. i \<notin> fst ` set ?tag \<longrightarrow> up_chapters (fst ?R) ! i = up_chapters u ! i"
      proof (intro allI impI)
        fix i assume i: "i \<notin> fst ` set ?tag"
        have "i \<noteq> j" using i new by (cases new) auto
        then show "up_chapters (fst ?R) ! i = up_chapters u ! i" using R1 by simp
      qed
      have c7: "\<forall>i<length (up_chapters u). chapterStatus (up_chapters u ! i) = CH_COMPLETED \<longrightarrow>
              chapterStatus (up_chapters (fst ?R) ! i) = CH_COMPLETED"
      proof (intro allI impI)
        fix i assume c: "chapterStatus (up_chapters u ! i) = CH_COMPLETED"
        have "i \<noteq> j" using c False by auto
        then show "chapterStatus (up_chapters (fst ?R) ! i) = CH_COMPLETED" using c R1 by simp
      qed
      have c8: "\<forall>e\<in>set ?tag. isCompletedOutcome (snd (snd e)) \<longrightarrow>
              chapterStatus (up_chapters (fst ?R) ! fst e) = CH_COMPLETED"
      proof (intro ballI impI)
        fix e assume e: "e \<in> set ?tag" and c: "isCompletedOutcome (snd (snd e))"
        then have m: "snd e \<in> set new" using tagset by blast
        have "\<not> isNetworkFailure (snd (snd e))" using c networkFailure_not_completed by blast
        from only_last[OF m this] c notdone show "chapterStatus (up_chapters (fst ?R) ! fst e) = CH_COMPLETED"
          by simp
      qed
      have c9: "(\<exists>e\<in>set ?tag. is403Outcome (snd (snd e))) \<longrightarrow> up_status (fst ?R) = UP_STOPPED"
      proof
        assume "\<exists>e\<in>set ?tag. is403Outcome (snd (snd e))"
        then obtain e where e: "e \<in> set ?tag" and f: "is403Outcome (snd (snd e))" by blast
        then have m: "snd e \<in> set new" using tagset by blast
        have "\<not> isNetworkFailure (snd (snd e))" using f networkFailure_not_403 by blast
        from only_last[OF m this] f have "is403Outcome (snd (last new))" by simp
        then show "up_status (fst ?R) = UP_STOPPED" using R3 by simp
      qed
      have c10: "\<forall>i. entriesOf i ?tag \<noteq> []
             \<and> (\<forall>e\<in>set (entriesOf i ?tag). isNetworkFailure (snd e)) \<longrightarrow>
          length (entriesOf i ?tag) = 4
        \<and> entriesOf i ?tagS = [2000, 5000, 10000]
        \<and> fst (hd (entriesOf i ?tag)) = up_chapters u ! i
        \<and> (\<forall>n. Suc n < length (entriesOf i ?tag) \<longrightarrow>
              fst (entriesOf i ?tag ! Suc n) = nextInput (snd (entriesOf i ?tag ! n)))
        \<and> up_chapters (fst ?R) ! i = stateAfter (snd (last (entriesOf i ?tag)))
        \<and> up_status (fst ?R)
            = (if hasNetworkError (stateAfter (snd (last (entriesOf i ?tag))))
               then UP_PAUSED else UP_FAILED)"
      proof (intro allI impI)
        fix i
        assume a: "entriesOf i ?tag \<noteq> []
             \<and> (\<forall>e\<in>set (entriesOf i ?tag). isNetworkFailure (snd e))"
        have ij: "i = j" using a eo_other by blast
        have net: "isNetworkFailure (snd (last new))" using a lastin unfolding ij eo_j by blast
        have len: "length new = 4" by (rule net4[OF net])
        have "[1..<1 + (length new - 1)] = [1..<4]" unfolding len by simp
        then have sl4: "entriesOf j ?tagS = [2000, 5000, 10000]"
          unfolding eoS_j using retryDelays by simp
        have n403: "\<not> is403Outcome (snd (last new))" using net by (rule networkFailure_not_403)
        show "length (entriesOf i ?tag) = 4
        \<and> entriesOf i ?tagS = [2000, 5000, 10000]
        \<and> fst (hd (entriesOf i ?tag)) = up_chapters u ! i
        \<and> (\<forall>n. Suc n < length (entriesOf i ?tag) \<longrightarrow>
              fst (entriesOf i ?tag ! Suc n) = nextInput (snd (entriesOf i ?tag ! n)))
        \<and> up_chapters (fst ?R) ! i = stateAfter (snd (last (entriesOf i ?tag)))
        \<and> up_status (fst ?R)
            = (if hasNetworkError (stateAfter (snd (last (entriesOf i ?tag))))
               then UP_PAUSED else UP_FAILED)"
          unfolding ij eo_j sl4 using len hd chain Rj R3 n403 by simp
      qed
      show ?thesis
        apply (rule exI[of _ ?tag], rule exI[of _ ?tagS])
        using c1 c2 c3 c4 c5 c6 c7 c8 c9 c10 by (intro conjI) assumption+
    qed
  qed
qed


lemma uploadAll_cases:
  "(fst (uploadAll upload cleanup u) = u \<or> (\<exists>st msg. fst (uploadAll upload cleanup u) = stopRun u st msg)
      \<or> (\<exists>st msg. fst (uploadAll upload cleanup u)
            = stopRun (u\<lparr>up_status := UP_IN_PROGRESS, up_progress := 0, up_error := None,
                          currentChapterIndex := 0\<rparr>) st msg))
     \<and> uploads (snd (uploadAll upload cleanup u)) = [] \<and> sleeps (snd (uploadAll upload cleanup u)) = []
   \<or> uploadAll upload cleanup u
       = uploadLoop upload
           (filter (\<lambda>j. chapterStatus (up_chapters u ! j) \<noteq> CH_COMPLETED) [0..<length (up_chapters u)]) 0
           (u\<lparr>up_status := UP_IN_PROGRESS, up_progress := 0, up_error := None,
               currentChapterIndex := 0\<rparr>)
           \<lparr>calls = 0, uploads = [], sleeps = []\<rparr>"
  unfolding uploadAll_def Let_def
  by (auto split: option.splits)

lemma mentions403_spec:
  "mentions403 err = (case err of None \<Rightarrow> False | Some t \<Rightarrow> saysForbidden_spec t)"
  by (cases err) (auto simp: mentions403_def truthy_def orEmpty_def includesStr_def
        saysForbidden_spec_def)

lemma mentionsNetwork_spec:
  "mentionsNetwork err = (case err of None \<Rightarrow> False | Some t \<Rightarrow> saysNetworkError_spec t)"
  by (cases err) (auto simp: mentionsNetwork_def truthy_def orEmpty_def includesStr_def
        saysNetworkError_spec_def toLowerCase_def Let_def)

lemma set_errorTexts:
  "set (errorTexts_spec chap)
     = {t. chapterError chap = Some t \<or> (\<exists>page\<in>set (pages chap). pageError page = Some t)}"
proof -
  have "(\<Union>err\<in>set errs. set (case err of None \<Rightarrow> [] | Some t \<Rightarrow> [t])) = {t. Some t \<in> set errs}"
    for errs :: "string option list"
    by (auto split: option.splits)
  then show ?thesis
    unfolding errorTexts_spec_def set_concat set_map image_image
    by (auto simp: image_iff)
qed

lemma list_ex_errorTexts:
  "list_ex P (errorTexts_spec chap)
     = ((case chapterError chap of None \<Rightarrow> False | Some t \<Rightarrow> P t)
        \<or> list_ex (\<lambda>page. case pageError page of None \<Rightarrow> False | Some t \<Rightarrow> P t) (pages chap))"
proof -
  have "(\<exists>page\<in>set (pages chap). case pageError page of None \<Rightarrow> False | Some t \<Rightarrow> P t)
        = (\<exists>t. (\<exists>page\<in>set (pages chap). pageError page = Some t) \<and> P t)"
    by (auto split: option.splits)
  moreover have "(case chapterError chap of None \<Rightarrow> False | Some t \<Rightarrow> P t)
        = (\<exists>t. chapterError chap = Some t \<and> P t)"
    by (auto split: option.splits)
  ultimately show ?thesis
    unfolding list_ex_iff set_errorTexts by blast
qed

lemma has403Error_spec: "has403Error chap = list_ex saysForbidden_spec (errorTexts_spec chap)"
  unfolding list_ex_errorTexts has403Error_def mentions403_spec by auto

lemma hasNetworkError_spec:
  "hasNetworkError chap = list_ex saysNetworkError_spec (errorTexts_spec chap)"
  unfolding list_ex_errorTexts hasNetworkError_def mentionsNetwork_spec by auto

lemma is403Outcome_spec: "is403Outcome out = failedWith403_spec out"
  by (cases out)
     (auto simp: has403Error_spec is403Error_def includesStr_def saysForbidden_spec_def
           split: js_error.splits)

lemma isNetworkFailure_spec: "isNetworkFailure out = failedWithNetworkError_spec out"
  by (cases out)
     (auto simp: has403Error_spec hasNetworkError_spec is403Error_def isNetworkError_def
           split: js_error.splits)

lemma isCompletedOutcome_spec: "isCompletedOutcome out = completedBy_spec out"
  by (cases out) auto

lemma resetForRetry_spec: "resetForRetry chap = reset_spec chap"
  by (simp add: resetForRetry_def reset_spec_def resetPage_def)

lemma nextInput_spec:
  "nextInput out = (case out of Resolved chap \<Rightarrow> reset_spec chap | Rejected e chap \<Rightarrow> chap)"
  by (cases out) (simp_all add: resetForRetry_spec)

text \<open>
  The run on every behaviour of the upload call. For every run of \<^verbatim>\<open>uploadAll\<close>:

  \<^item> if an upload call of the run fails with 403, the run ends \<open>STOPPED\<close>;
  \<^item> a chapter on which the run made no upload call is left as it was, so a chapter that
    was \<open>NOT_STARTED\<close> still is;
  \<^item> a chapter that was \<open>COMPLETED\<close> before the run, or that an upload call of the run
    completed, is \<open>COMPLETED\<close> at the end;
  \<^item> if every upload call made on a chapter failed with a network error, there were
    exactly four calls, with delays of 2000, 5000 and 10000 ms between them; the first
    call found the chapter as it was before the run; a retry found the chapter reset
    after a call that resolved, and as the call left it after a call that rejected; the
    chapter ends in the state the fourth call left, and the run ends \<open>PAUSED\<close> if an error
    text of that state says network error and \<open>FAILED\<close> otherwise. When the fourth call
    resolved, an error text does say so and the run ends \<open>PAUSED\<close>.

  What it is to fail with 403 or with a network error and what the reset is are
  written out in \<open>failedWith403_spec\<close>, \<open>failedWithNetworkError_spec\<close> and \<open>reset_spec\<close>.
  So Claim C4 holds of every run in which no upload call rejects with a network error.
\<close>

theorem uploadAll_stopped_or_paused:
  assumes "uploadAll upload cleanup u = (u', lg)"
  shows "((\<exists>entry\<in>set (uploads lg). failedWith403_spec (snd (snd entry))) \<longrightarrow> up_status u' = UP_STOPPED)
    \<and> (\<forall>i. uploadsOf lg i = [] \<longrightarrow> up_chapters u' ! i = up_chapters u ! i)
    \<and> (\<forall>i<length (up_chapters u). chapterStatus (up_chapters u ! i) = CH_COMPLETED \<longrightarrow>
          chapterStatus (up_chapters u' ! i) = CH_COMPLETED)
    \<and> (\<forall>entry\<in>set (uploads lg). completedBy_spec (snd (snd entry)) \<longrightarrow>
          chapterStatus (up_chapters u' ! fst entry) = CH_COMPLETED)
    \<and> (\<forall>j. uploadsOf lg j \<noteq> []
             \<and> (\<forall>c\<in>set (uploadsOf lg j). failedWithNetworkError_spec (snd c)) \<longrightarrow>
          length (uploadsOf lg j) = 4
        \<and> sleepsOf lg j = [2000, 5000, 10000]
        \<and> fst (hd (uploadsOf lg j)) = up_chapters u ! j
        \<and> (\<forall>n. Suc n < 4 \<longrightarrow>
              fst (uploadsOf lg j ! Suc n)
                = (case snd (uploadsOf lg j ! n) of
                     Resolved chap \<Rightarrow> reset_spec chap | Rejected e chap \<Rightarrow> chap))
        \<and> up_chapters u' ! j = stateAfter (snd (last (uploadsOf lg j)))
        \<and> up_status u'
            = (if list_ex saysNetworkError_spec (errorTexts_spec (up_chapters u' ! j))
               then UP_PAUSED else UP_FAILED)
        \<and> (isResolved (snd (last (uploadsOf lg j))) \<longrightarrow>
              up_status u' = UP_PAUSED
              \<and> list_ex saysNetworkError_spec (errorTexts_spec (up_chapters u' ! j))))"
proof -
  let ?idxs = "filter (\<lambda>j. chapterStatus (up_chapters u ! j) \<noteq> CH_COMPLETED) [0..<length (up_chapters u)]"
  let ?u1 = "u\<lparr>up_status := UP_IN_PROGRESS, up_progress := 0, up_error := None,
               currentChapterIndex := 0\<rparr>"
  let ?lg0 = "\<lparr>calls = 0, uploads = [], sleeps = []\<rparr>"
  from uploadAll_cases[of upload cleanup u]
  consider (early) "up_chapters u' = up_chapters u" "uploads lg = []" "sleeps lg = []"
    | (loop) "uploadLoop upload ?idxs 0 ?u1 ?lg0 = (u', lg)"
    unfolding assms by (auto simp: stopRun_def)
  then show ?thesis
  proof cases
    case early
    then show ?thesis by (simp add: uploadsOf_def sleepsOf_def entriesOf_def)
  next
    case loop
    have d: "distinct ?idxs" by simp
    have l: "\<forall>j\<in>set ?idxs. j < length (up_chapters ?u1)" by simp
    from uploadLoop_spec[OF d l, of upload 0 ?lg0]
    have h: "fst ` set (uploads lg) \<subseteq> set ?idxs"
         "\<forall>i. i \<notin> fst ` set (uploads lg) \<longrightarrow> up_chapters u' ! i = up_chapters u ! i"
         "\<forall>i<length (up_chapters u). chapterStatus (up_chapters u ! i) = CH_COMPLETED \<longrightarrow>
              chapterStatus (up_chapters u' ! i) = CH_COMPLETED"
         "\<forall>e\<in>set (uploads lg). isCompletedOutcome (snd (snd e)) \<longrightarrow>
              chapterStatus (up_chapters u' ! fst e) = CH_COMPLETED"
         "(\<exists>e\<in>set (uploads lg). is403Outcome (snd (snd e))) \<longrightarrow> up_status u' = UP_STOPPED"
         "\<forall>j. uploadsOf lg j \<noteq> [] \<and> (\<forall>e\<in>set (uploadsOf lg j). isNetworkFailure (snd e)) \<longrightarrow>
          length (uploadsOf lg j) = 4
        \<and> sleepsOf lg j = [2000, 5000, 10000]
        \<and> fst (hd (uploadsOf lg j)) = up_chapters u ! j
        \<and> (\<forall>n. Suc n < length (uploadsOf lg j) \<longrightarrow>
              fst (uploadsOf lg j ! Suc n) = nextInput (snd (uploadsOf lg j ! n)))
        \<and> up_chapters u' ! j = stateAfter (snd (last (uploadsOf lg j)))
        \<and> up_status u'
            = (if hasNetworkError (stateAfter (snd (last (uploadsOf lg j))))
               then UP_PAUSED else UP_FAILED)"
      unfolding loop uploadsOf_def sleepsOf_def by simp_all
    have frame: "\<forall>i. uploadsOf lg i = [] \<longrightarrow> up_chapters u' ! i = up_chapters u ! i"
    proof (intro allI impI)
      fix i assume "uploadsOf lg i = []"
      then have "i \<notin> fst ` set (uploads lg)"
        by (auto simp: uploadsOf_def entriesOf_def filter_empty_conv)
      with h(2) show "up_chapters u' ! i = up_chapters u ! i" by blast
    qed
    have net: "\<forall>j. uploadsOf lg j \<noteq> []
             \<and> (\<forall>c\<in>set (uploadsOf lg j). failedWithNetworkError_spec (snd c)) \<longrightarrow>
          length (uploadsOf lg j) = 4
        \<and> sleepsOf lg j = [2000, 5000, 10000]
        \<and> fst (hd (uploadsOf lg j)) = up_chapters u ! j
        \<and> (\<forall>n. Suc n < 4 \<longrightarrow>
              fst (uploadsOf lg j ! Suc n)
                = (case snd (uploadsOf lg j ! n) of
                     Resolved chap \<Rightarrow> reset_spec chap | Rejected e chap \<Rightarrow> chap))
        \<and> up_chapters u' ! j = stateAfter (snd (last (uploadsOf lg j)))
        \<and> up_status u'
            = (if list_ex saysNetworkError_spec (errorTexts_spec (up_chapters u' ! j))
               then UP_PAUSED else UP_FAILED)
        \<and> (isResolved (snd (last (uploadsOf lg j))) \<longrightarrow>
              up_status u' = UP_PAUSED
              \<and> list_ex saysNetworkError_spec (errorTexts_spec (up_chapters u' ! j)))"
    proof (intro allI impI)
      fix j
      assume a: "uploadsOf lg j \<noteq> []
             \<and> (\<forall>c\<in>set (uploadsOf lg j). failedWithNetworkError_spec (snd c))"
      let ?ups = "uploadsOf lg j"
      from h(6) a have g: "length ?ups = 4" "sleepsOf lg j = [2000, 5000, 10000]"
        "fst (hd ?ups) = up_chapters u ! j"
        "\<forall>n. Suc n < length ?ups \<longrightarrow> fst (?ups ! Suc n) = nextInput (snd (?ups ! n))"
        "up_chapters u' ! j = stateAfter (snd (last ?ups))"
        "up_status u' = (if hasNetworkError (stateAfter (snd (last ?ups))) then UP_PAUSED else UP_FAILED)"
        unfolding isNetworkFailure_spec by blast+
      have "last ?ups \<in> set ?ups" using a by simp
      with a have nl: "failedWithNetworkError_spec (snd (last ?ups))" by blast
      have res: "isResolved (snd (last ?ups)) \<longrightarrow> hasNetworkError (stateAfter (snd (last ?ups)))"
        using nl by (cases "snd (last ?ups)") (auto simp: hasNetworkError_spec)
      show "length ?ups = 4
        \<and> sleepsOf lg j = [2000, 5000, 10000]
        \<and> fst (hd ?ups) = up_chapters u ! j
        \<and> (\<forall>n. Suc n < 4 \<longrightarrow>
              fst (?ups ! Suc n)
                = (case snd (?ups ! n) of Resolved chap \<Rightarrow> reset_spec chap | Rejected e chap \<Rightarrow> chap))
        \<and> up_chapters u' ! j = stateAfter (snd (last ?ups))
        \<and> up_status u'
            = (if list_ex saysNetworkError_spec (errorTexts_spec (up_chapters u' ! j))
               then UP_PAUSED else UP_FAILED)
        \<and> (isResolved (snd (last ?ups)) \<longrightarrow>
              up_status u' = UP_PAUSED
              \<and> list_ex saysNetworkError_spec (errorTexts_spec (up_chapters u' ! j)))"
        using g res by (simp add: nextInput_spec hasNetworkError_spec)
    qed
    from h(5)[unfolded is403Outcome_spec] frame h(3) h(4)[unfolded isCompletedOutcome_spec] net
    show ?thesis by (intro conjI) assumption+
  qed
qed

theorem uploadAll_stopped_or_paused_witness:
  "map (\<lambda>entry. snd (snd entry)) (uploads (snd (uploadAll rejectsForbidden None threeChapters)))
     = [Resolved (completed freshChapter), Rejected (AxiosError (Some 403)) freshChapter]
   \<and> up_status (fst (uploadAll rejectsForbidden None threeChapters)) = UP_STOPPED
   \<and> uploadsOf (snd (uploadAll rejectsForbidden None threeChapters)) 2 = []
   \<and> up_chapters (fst (uploadAll rejectsForbidden None threeChapters)) ! 2 = freshChapter
   \<and> chapterStatus (up_chapters (fst (uploadAll rejectsForbidden None threeChapters)) ! 0)
       = CH_COMPLETED
   \<and> uploadsOf (snd (uploadAll recordsNetworkError None threeChapters)) 1
       = [(freshChapter,
           Resolved (freshChapter\<lparr>chapterStatus := CH_FAILED, chapterError := Some ''Network Error''\<rparr>)),
          (freshChapter,
           Resolved (freshChapter\<lparr>chapterStatus := CH_FAILED, chapterError := Some ''Network Error''\<rparr>)),
          (freshChapter,
           Resolved (freshChapter\<lparr>chapterStatus := CH_FAILED, chapterError := Some ''Network Error''\<rparr>)),
          (freshChapter,
           Resolved (freshChapter\<lparr>chapterStatus := CH_FAILED, chapterError := Some ''Network Error''\<rparr>))]
   \<and> up_status (fst (uploadAll recordsNetworkError None threeChapters)) = UP_PAUSED
   \<and> sleepsOf (snd (uploadAll recordsNetworkError None threeChapters)) 1 = [2000, 5000, 10000]
   \<and> up_chapters (fst (uploadAll recordsNetworkError None threeChapters)) ! 1
       = freshChapter\<lparr>chapterStatus := CH_FAILED, chapterError := Some ''Network Error''\<rparr>
   \<and> chapterStatus (up_chapters (fst (uploadAll recordsNetworkError None threeChapters)) ! 0)
       = CH_COMPLETED
   \<and> up_chapters (fst (uploadAll recordsNetworkError None threeChapters)) ! 2 = freshChapter"
proof -
  let ?A = "uploadAll rejectsForbidden None threeChapters"
  let ?B = "uploadAll recordsNetworkError None threeChapters"
  let ?nf = "freshChapter\<lparr>chapterStatus := CH_FAILED, chapterError := Some ''Network Error''\<rparr>"
  define lgA where "lgA = \<lparr>calls = 2,
         uploads = [(0, freshChapter, Resolved (completed freshChapter)),
                    (1, freshChapter, Rejected (AxiosError (Some 403)) freshChapter)],
         sleeps = []\<rparr>"
  define lgB where "lgB = \<lparr>calls = 5,
         uploads = [(0, freshChapter, Resolved (completed freshChapter)),
                    (1, freshChapter, Resolved ?nf),
                    (1, freshChapter, Resolved ?nf),
                    (1, freshChapter, Resolved ?nf),
                    (1, freshChapter, Resolved ?nf)],
         sleeps = [(1, 2000), (1, 5000), (1, 10000)]\<rparr>"
  have sA: "snd ?A = lgA" unfolding lgA_def by code_simp
  have sB: "snd ?B = lgB" unfolding lgB_def by code_simp
  have pA: "?A = (fst ?A, lgA)" and pB: "?B = (fst ?B, lgB)"
    using sA sB by (simp_all add: prod_eq_iff)
  note tA = uploadAll_stopped_or_paused[OF pA]
  note tB = uploadAll_stopped_or_paused[OF pB]
  have a2: "failedWith403_spec (Rejected (AxiosError (Some 403)) freshChapter)" by simp
  have b2: "failedWithNetworkError_spec (Resolved ?nf)" by code_simp
  have a1: "map (\<lambda>entry. snd (snd entry)) (uploads (snd ?A))
            = [Resolved (completed freshChapter), Rejected (AxiosError (Some 403)) freshChapter]"
    unfolding sA by (simp add: lgA_def)
  have a3: "\<exists>entry\<in>set (uploads lgA). failedWith403_spec (snd (snd entry))"
    using a2 by (simp add: lgA_def)
  have a5: "uploadsOf lgA 2 = []" by (simp add: lgA_def uploadsOf_def entriesOf_def)
  have a6: "(0, freshChapter, Resolved (completed freshChapter)) \<in> set (uploads lgA)"
    by (simp add: lgA_def)
  have a7: "completedBy_spec (Resolved (completed freshChapter))" by (simp add: completed_def)
  have a9: "up_chapters threeChapters ! 2 = freshChapter" by (simp add: threeChapters_def)
  have upsB: "uploadsOf lgB 1 = [(freshChapter, Resolved ?nf), (freshChapter, Resolved ?nf),
                (freshChapter, Resolved ?nf), (freshChapter, Resolved ?nf)]"
    by (simp add: lgB_def uploadsOf_def entriesOf_def)
  have b3: "uploadsOf lgB 1 \<noteq> []" unfolding upsB by simp
  have b4: "\<forall>c\<in>set (uploadsOf lgB 1). failedWithNetworkError_spec (snd c)"
    unfolding upsB using b2 by simp
  have b5: "isResolved (snd (last (uploadsOf lgB 1)))" unfolding upsB by simp
  have b6: "(0, freshChapter, Resolved (completed freshChapter)) \<in> set (uploads lgB)"
    by (simp add: lgB_def)
  have b9: "uploadsOf lgB 2 = []" by (simp add: lgB_def uploadsOf_def entriesOf_def)
  from tA a3 have c1: "up_status (fst ?A) = UP_STOPPED" by blast
  from tA a5 a9 have c2: "up_chapters (fst ?A) ! 2 = freshChapter" by simp
  from tA a6 a7 have "chapterStatus (up_chapters (fst ?A)
        ! fst (0::nat, freshChapter, Resolved (completed freshChapter))) = CH_COMPLETED"
    by (metis snd_conv)
  then have c3: "chapterStatus (up_chapters (fst ?A) ! 0) = CH_COMPLETED" by simp
  from tB b3 b4 b5 have c4: "up_status (fst ?B) = UP_PAUSED"
    and c5: "sleepsOf lgB 1 = [2000, 5000, 10000]"
    and c6: "up_chapters (fst ?B) ! 1 = stateAfter (snd (last (uploadsOf lgB 1)))" by blast+
  from c6 have c6': "up_chapters (fst ?B) ! 1 = ?nf" unfolding upsB by simp
  from tB b6 a7 have "chapterStatus (up_chapters (fst ?B)
        ! fst (0::nat, freshChapter, Resolved (completed freshChapter))) = CH_COMPLETED"
    by (metis snd_conv)
  then have c7: "chapterStatus (up_chapters (fst ?B) ! 0) = CH_COMPLETED" by simp
  from tB b9 a9 have c8: "up_chapters (fst ?B) ! 2 = freshChapter" by simp
  from a1 c1 a5 c2 c3 upsB c4 c5 c6' c7 c8 show ?thesis unfolding sA sB
    by (intro conjI) assumption+
qed

text \<open>
  Claim C4 at an upload call that rejects. The first chapter is completed. Every call on
  the second chapter rejects with an axios error that has no response, which
  \<^verbatim>\<open>isNetworkError\<close> takes for a network error. The \<^verbatim>\<open>catch\<close> branch of
  \<^verbatim>\<open>uploadChapterWithRetry\<close> sleeps 2000, 5000 and 10000 ms and retries three times, but
  it does not reset the chapter and its pages as the \<^verbatim>\<open>try\<close> branch does: every retry is
  made on the state the call before it left. After the fourth rejection \<^verbatim>\<open>uploadAll\<close>
  reads the error texts of the chapter, not the error that was thrown. When the call
  recorded nothing in the chapter (\<open>rejectsWithoutResponse\<close>), the run ends \<open>FAILED\<close> with
  the message \<^verbatim>\<open>Failed to upload chapter: Unknown\<close> and the error of the chapter is still
  \<^verbatim>\<open>null\<close>. When the call recorded the error before it rejected
  (\<open>rejectsRecordingError\<close>), the run ends \<open>PAUSED\<close>, and the retries were made on the
  failed chapter as it was.
\<close>

theorem rejected_uploads_are_not_reset:
  "uploadAll rejectsWithoutResponse None threeChapters
     = (\<lparr>up_chapters = [completed freshChapter, freshChapter, freshChapter],
         up_status = UP_FAILED, up_progress = 0,
         up_error = Some ''Failed to upload chapter: Unknown'',
         currentChapterIndex = 1, authToken = Some ''token''\<rparr>,
        \<lparr>calls = 5,
         uploads = [(0, freshChapter, Resolved (completed freshChapter)),
                    (1, freshChapter, Rejected (AxiosError None) freshChapter),
                    (1, freshChapter, Rejected (AxiosError None) freshChapter),
                    (1, freshChapter, Rejected (AxiosError None) freshChapter),
                    (1, freshChapter, Rejected (AxiosError None) freshChapter)],
         sleeps = [(1, 2000), (1, 5000), (1, 10000)]\<rparr>)
   \<and> uploadAll rejectsRecordingError None threeChapters
     = (\<lparr>up_chapters =
           [completed freshChapter,
            freshChapter\<lparr>chapterStatus := CH_FAILED, chapterError := Some ''Network Error''\<rparr>,
            freshChapter],
         up_status = UP_PAUSED, up_progress = 0,
         up_error = Some ''Network error: Upload failed after 3 retry attempts. Upload paused. Please check your connection and resume manually.'',
         currentChapterIndex = 1, authToken = Some ''token''\<rparr>,
        \<lparr>calls = 5,
         uploads =
           [(0, freshChapter, Resolved (completed freshChapter)),
            (1, freshChapter,
             Rejected (AxiosError None)
               (freshChapter\<lparr>chapterStatus := CH_FAILED, chapterError := Some ''Network Error''\<rparr>)),
            (1, freshChapter\<lparr>chapterStatus := CH_FAILED, chapterError := Some ''Network Error''\<rparr>,
             Rejected (AxiosError None)
               (freshChapter\<lparr>chapterStatus := CH_FAILED, chapterError := Some ''Network Error''\<rparr>)),
            (1, freshChapter\<lparr>chapterStatus := CH_FAILED, chapterError := Some ''Network Error''\<rparr>,
             Rejected (AxiosError None)
               (freshChapter\<lparr>chapterStatus := CH_FAILED, chapterError := Some ''Network Error''\<rparr>)),
            (1, freshChapter\<lparr>chapterStatus := CH_FAILED, chapterError := Some ''Network Error''\<rparr>,
             Rejected (AxiosError None)
               (freshChapter\<lparr>chapterStatus := CH_FAILED, chapterError := Some ''Network Error''\<rparr>))],
         sleeps = [(1, 2000), (1, 5000), (1, 10000)]\<rparr>)
   \<and> isNetworkError (AxiosError None) \<and> \<not> is403Error (AxiosError None)
   \<and> resetForRetry (freshChapter\<lparr>chapterStatus := CH_FAILED, chapterError := Some ''Network Error''\<rparr>)
       = freshChapter"
  by code_simp

end
